theory Spec2Isabelle
  imports Main "HOL-Library.Sublist"
begin

section \<open>blink-lapse: the capture script as a state-and-exception program\<close>

text \<open>
  The script \<^verbatim>\<open>capture.py\<close> is an orchestration of calls into the camera service
  library, the local file system, the terminal and the clock. The model keeps the
  control flow of the three coroutines \<^verbatim>\<open>authenticate\<close>, \<^verbatim>\<open>capture_frame\<close> and
  \<^verbatim>\<open>run_collector\<close> (and of \<^verbatim>\<open>_do_2fa\<close>) as it is written and makes everything
  outside the script a parameter:
  \<^item> what each outside call answers is given by an environment \<open>env\<close>, a record of
    oracles indexed by the number of outside calls made so far (\<open>tick\<close>);
  \<^item> what the script changes is a \<open>world\<close>: the credentials file, the frame files,
    the directories, the log records and the trace of outside calls with their answers;
  \<^item> an exception is a value: a computation returns \<open>(Inl e, w)\<close> when it raises \<open>e\<close>
    in the world \<open>w\<close>, and \<open>(Inr x, w)\<close> when it returns \<open>x\<close>;
  \<^item> the \<^verbatim>\<open>while True\<close> loop of \<^verbatim>\<open>run_collector\<close> takes fuel, the number of cycles
    it may start; \<open>None\<close> says that the loop is still running when the fuel is used up.

  The outside calls that may raise are the awaited calls of the library and of
  \<^verbatim>\<open>asyncio.sleep\<close>, \<^verbatim>\<open>input\<close>, the read of the credentials file and \<^verbatim>\<open>mkdir\<close>. Reads
  of the process environment, of the clock, of \<^verbatim>\<open>blink.available\<close> and
  \<^verbatim>\<open>blink.cameras\<close>, the tests \<^verbatim>\<open>exists()\<close> and \<^verbatim>\<open>stat()\<close>, and logging are total. An
  interrupt is the exception \<^verbatim>\<open>KeyboardInterrupt\<close> raised by the call during which it
  arrives.
\<close>

subsection \<open>Exceptions\<close>

text \<open>
  The exceptions the script tells apart. \<open>BlinkTwoFARequiredError\<close> and \<open>OtherException\<close>
  (any other subclass of \<^verbatim>\<open>Exception\<close>) are what \<^verbatim>\<open>except Exception\<close> catches;
  \<open>KeyboardInterrupt\<close> and \<open>SystemExit\<close> derive from \<^verbatim>\<open>BaseException\<close> only.
\<close>

datatype exn =
    BlinkTwoFARequiredError
  | OtherException
  | KeyboardInterrupt
  | SystemExit int

fun is_Exception :: "exn \<Rightarrow> bool" where
  "is_Exception BlinkTwoFARequiredError = True"
| "is_Exception OtherException = True"
| "is_Exception KeyboardInterrupt = False"
| "is_Exception (SystemExit n) = False"

subsection \<open>Data\<close>

text \<open>
  The login attributes of a session, which \<^verbatim>\<open>blink.save\<close> writes to the credentials
  file: either the user name and password the session was created with (\<open>Login\<close>), or
  the attributes the service issued when a login succeeded (\<open>Session\<close>, with an opaque
  token).
\<close>

datatype creds = Login string string | Session nat

fun from_successful_login :: "creds \<Rightarrow> bool" where
  "from_successful_login (Session t) = True"
| "from_successful_login (Login u p) = False"

record blink =
  login_attributes :: creds
  no_prompt :: bool

type_synonym camera = nat

datatype level = DEBUG | INFO | WARNING | ERROR

text \<open>
  A log record: level, format string, string arguments. The format strings are those
  of the source, without the quotation marks around \<^verbatim>\<open>%s\<close> and with a hyphen for the
  dash; \<^verbatim>\<open>log.exception\<close> records at the level of an error.
\<close>

datatype log_record = Log level string "string list"

text \<open>An outside call together with what it answered.\<close>

datatype event =
    ReadText "exn + unit"
  | Start "exn + bool"
  | Input string "exn + string"
  | Send2FA "exn + bool"
  | Save "exn + unit"
  | Mkdir string "exn + unit"
  | Refresh "exn + unit"
  | SnapPicture camera "exn + unit"
  | Sleep nat "exn + unit"
  | ImageToFile string "exn + nat option"

text \<open>
  The world: the content of the credentials file (\<open>None\<close> when there is no file), the
  size in bytes of each frame file, the directories made, the log and the trace. The
  script is given one credentials path, so the world has one credentials file.
\<close>

record world =
  cred_file :: "creds option"
  files :: "string \<rightharpoonup> nat"
  dirs :: "string set"
  logs :: "log_record list"
  events :: "event list"

text \<open>
  The environment: the variables of the process environment and, for each kind of
  outside call, what the call made at a given tick answers. \<open>issued\<close> is the token of
  the session that the service issues when a login succeeds at a tick; \<open>available\<close>,
  \<open>cameras\<close> and \<open>now\<close> are what \<^verbatim>\<open>blink.available\<close>, \<^verbatim>\<open>blink.cameras\<close> (in the order
  of enumeration) and the clock (as \<^verbatim>\<open>strftime\<close> formats it) read at a tick.
\<close>

record env =
  environ :: "string \<Rightarrow> string option"
  read_text :: "nat \<Rightarrow> exn + unit"
  input :: "nat \<Rightarrow> exn + string"
  start :: "nat \<Rightarrow> exn + bool"
  issued :: "nat \<Rightarrow> nat"
  send_2fa_code :: "nat \<Rightarrow> exn + bool"
  save :: "nat \<Rightarrow> exn + unit"
  available :: "nat \<Rightarrow> bool"
  cameras :: "nat \<Rightarrow> (string \<times> camera) list"
  mkdir :: "nat \<Rightarrow> exn + unit"
  refresh :: "nat \<Rightarrow> exn + unit"
  now :: "nat \<Rightarrow> string"
  snap_picture :: "nat \<Rightarrow> exn + unit"
  sleep :: "nat \<Rightarrow> exn + unit"
  image_to_file :: "nat \<Rightarrow> exn + nat option"

definition tick :: "world \<Rightarrow> nat" where
  "tick w = length (events w)"

subsection \<open>Computations\<close>

type_synonym 'a prog = "world \<Rightarrow> (exn + 'a) \<times> world"

definition ret :: "'a \<Rightarrow> 'a prog" where
  "ret x w = (Inr x, w)"

definition throw :: "exn \<Rightarrow> 'a prog" where
  "throw e w = (Inl e, w)"

definition seq :: "'a prog \<Rightarrow> ('a \<Rightarrow> 'b prog) \<Rightarrow> 'b prog" where
  "seq m f w = (case m w of (Inl e, w') \<Rightarrow> (Inl e, w') | (Inr x, w') \<Rightarrow> f x w')"

text \<open>\<^verbatim>\<open>try: m except C: h\<close>, where \<open>catches e\<close> says that \<open>e\<close> is an instance of \<open>C\<close>.\<close>

definition try_except :: "'a prog \<Rightarrow> (exn \<Rightarrow> bool) \<Rightarrow> (exn \<Rightarrow> 'a prog) \<Rightarrow> 'a prog" where
  "try_except m catches h w =
     (case m w of
        (Inl e, w') \<Rightarrow> if catches e then h e w' else (Inl e, w')
      | (Inr x, w') \<Rightarrow> (Inr x, w'))"

text \<open>An outside call: ask the oracle at the current tick, record the call and its answer.\<close>

definition call :: "(nat \<Rightarrow> exn + 'a) \<Rightarrow> (exn + 'a \<Rightarrow> event) \<Rightarrow> 'a prog" where
  "call oracle ev w =
     (oracle (tick w), w\<lparr>events := events w @ [ev (oracle (tick w))]\<rparr>)"

text \<open>Reading the world, and changing it.\<close>

definition get :: "(world \<Rightarrow> 'a) \<Rightarrow> 'a prog" where
  "get f w = (Inr (f w), w)"

definition modify :: "(world \<Rightarrow> world) \<Rightarrow> unit prog" where
  "modify f w = (Inr (), f w)"

definition log :: "level \<Rightarrow> string \<Rightarrow> string list \<Rightarrow> unit prog" where
  "log l fmt args = modify (\<lambda>w. w\<lparr>logs := logs w @ [Log l fmt args]\<rparr>)"

text \<open>\<^verbatim>\<open>a / b\<close> on paths, for a relative right operand.\<close>

definition path_join :: "string \<Rightarrow> string \<Rightarrow> string" where
  "path_join d n = d @ ''/'' @ n"

definition SNAP_SETTLE_DELAY :: nat where
  "SNAP_SETTLE_DELAY = 10"

definition DEFAULT_INTERVAL :: nat where
  "DEFAULT_INTERVAL = 600"

subsection \<open>The camera service library, as the script uses it\<close>

text \<open>
  A login that succeeds (\<^verbatim>\<open>start\<close> returning true, or an accepted second-factor code)
  replaces the login attributes of the session by attributes the service issues.
\<close>

definition logged_in :: "env \<Rightarrow> blink \<Rightarrow> blink prog" where
  "logged_in env b =
     seq (get tick) (\<lambda>t. ret (b\<lparr>login_attributes := Session (issued env t)\<rparr>))"

text \<open>\<^verbatim>\<open>await blink.start()\<close>: the answer, and the session as the call leaves it.\<close>

definition blink_start :: "env \<Rightarrow> blink \<Rightarrow> (bool \<times> blink) prog" where
  "blink_start env b =
     seq (call (start env) Start) (\<lambda>started.
       if started then seq (logged_in env b) (\<lambda>b'. ret (True, b'))
       else ret (False, b))"

text \<open>\<^verbatim>\<open>await blink.save(str(credentials_file))\<close>: writes the login attributes of the session.\<close>

definition blink_save :: "env \<Rightarrow> blink \<Rightarrow> unit prog" where
  "blink_save env b =
     seq (call (save env) Save) (\<lambda>_.
       modify (\<lambda>w. w\<lparr>cred_file := Some (login_attributes b)\<rparr>))"

text \<open>
  \<^verbatim>\<open>await camera.image_to_file(str(filename))\<close>: the service answers with the number of
  bytes it wrote, or with \<open>None\<close> when it wrote no file.
\<close>

definition camera_image_to_file :: "env \<Rightarrow> string \<Rightarrow> unit prog" where
  "camera_image_to_file env filename =
     seq (call (image_to_file env) (ImageToFile filename)) (\<lambda>written.
       case written of
         None \<Rightarrow> ret ()
       | Some n \<Rightarrow> modify (\<lambda>w. w\<lparr>files := (files w)(filename \<mapsto> n)\<rparr>))"

text \<open>\<^verbatim>\<open>(frames_dir / name).mkdir(parents=True, exist_ok=True)\<close>\<close>

definition path_mkdir :: "env \<Rightarrow> string \<Rightarrow> unit prog" where
  "path_mkdir env p =
     seq (call (mkdir env) (Mkdir p)) (\<lambda>_.
       modify (\<lambda>w. w\<lparr>dirs := insert p (dirs w)\<rparr>))"

subsection \<open>\<^verbatim>\<open>_do_2fa\<close>\<close>

definition do_2fa :: "env \<Rightarrow> blink \<Rightarrow> blink prog" where
  "do_2fa env b =
     seq (call (input env) (Input ''Enter the 2FA pin sent to your registered device/email: ''))
       (\<lambda>code.
     seq (call (send_2fa_code env) Send2FA) (\<lambda>ok.
       if \<not> ok then
         seq (log ERROR ''2FA verification failed.'' []) (\<lambda>_. throw (SystemExit 1))
       else logged_in env b))"

subsection \<open>\<^verbatim>\<open>authenticate\<close>\<close>

text \<open>\<^verbatim>\<open>os.environ.get(name) or input(prompt)\<close>\<close>

definition environ_or_input :: "env \<Rightarrow> string \<Rightarrow> string \<Rightarrow> string prog" where
  "environ_or_input env name prompt =
     (case environ env name of
        None \<Rightarrow> call (input env) (Input prompt)
      | Some v \<Rightarrow> if v = [] then call (input env) (Input prompt) else ret v)"

text \<open>The part of \<^verbatim>\<open>authenticate\<close> under the comment \<^verbatim>\<open>Fresh login\<close>.\<close>

definition fresh_login :: "env \<Rightarrow> blink prog" where
  "fresh_login env =
     seq (environ_or_input env ''BLINK_USERNAME'' ''Blink username (email): '') (\<lambda>username.
     seq (environ_or_input env ''BLINK_PASSWORD'' ''Blink password: '') (\<lambda>password.
     seq (try_except
            (seq (blink_start env \<lparr>login_attributes = Login username password, no_prompt = False\<rparr>)
               (\<lambda>(started, b). ret b))
            (\<lambda>e. e = BlinkTwoFARequiredError)
            (\<lambda>e. do_2fa env \<lparr>login_attributes = Login username password, no_prompt = False\<rparr>))
       (\<lambda>b.
     seq (blink_save env b) (\<lambda>_.
     seq (log INFO ''Credentials saved to %s'' []) (\<lambda>_.
     ret b)))))"

text \<open>
  The part under \<^verbatim>\<open>Try saved credentials\<close>, for a credentials file with the content
  \<open>c\<close>, answers \<open>Some b\<close> where the source returns the session \<open>b\<close>, and \<open>None\<close>
  where it falls through to the fresh login. \<^verbatim>\<open>json.loads(credentials_file.read_text())\<close>
  is the call \<open>ReadText\<close>: it returns, and the content is \<open>c\<close>, or it raises. Both
  \<^verbatim>\<open>blink.start()\<close> and the \<^verbatim>\<open>blink.save\<close> after it are inside the \<^verbatim>\<open>try\<close>.
\<close>

definition saved_login :: "env \<Rightarrow> creds \<Rightarrow> blink option prog" where
  "saved_login env c =
     seq (log INFO ''Loading saved credentials from %s'' []) (\<lambda>_.
     seq (call (read_text env) ReadText) (\<lambda>_.
     try_except
       (seq (blink_start env \<lparr>login_attributes = c, no_prompt = True\<rparr>) (\<lambda>(started, b).
          if started then seq (blink_save env b) (\<lambda>_. ret (Some b))
          else seq (log WARNING ''Saved credentials failed, falling back to login.'' [])
                 (\<lambda>_. ret None)))
       (\<lambda>e. e = BlinkTwoFARequiredError)
       (\<lambda>e. seq (do_2fa env \<lparr>login_attributes = c, no_prompt = True\<rparr>) (\<lambda>b.
             seq (blink_save env b) (\<lambda>_. ret (Some b))))))"

definition authenticate :: "env \<Rightarrow> blink prog" where
  "authenticate env =
     seq (get cred_file) (\<lambda>saved.
       case saved of
         None \<Rightarrow> fresh_login env
       | Some c \<Rightarrow>
           seq (saved_login env c)
             (\<lambda>r. case r of Some b \<Rightarrow> ret b | None \<Rightarrow> fresh_login env))"

subsection \<open>\<^verbatim>\<open>capture_frame\<close>\<close>

definition capture_frame :: "env \<Rightarrow> camera \<Rightarrow> string \<Rightarrow> string \<Rightarrow> bool prog" where
  "capture_frame env camera output_dir camera_name =
     seq (get tick) (\<lambda>t.
       (let timestamp = now env t;
            filename = path_join output_dir (timestamp @ ''.jpg'')
        in
          seq (log INFO ''Triggering snapshot on %s...'' [camera_name]) (\<lambda>_.
          seq (call (snap_picture env) (SnapPicture camera)) (\<lambda>_.
          seq (log DEBUG ''Waiting %ds for %s to upload...'' [camera_name]) (\<lambda>_.
          seq (call (sleep env) (Sleep SNAP_SETTLE_DELAY)) (\<lambda>_.
          seq (call (refresh env) Refresh) (\<lambda>_.
          seq (camera_image_to_file env filename) (\<lambda>_.
          seq (get (\<lambda>w. files w filename)) (\<lambda>size.
            case size of
              Some n \<Rightarrow>
                if n > 0 then seq (log INFO ''Saved %s (%d bytes)'' [filename]) (\<lambda>_. ret True)
                else seq (log WARNING ''Frame capture failed for %s - file missing or empty.''
                            [camera_name]) (\<lambda>_. ret False)
            | None \<Rightarrow>
                seq (log WARNING ''Frame capture failed for %s - file missing or empty.''
                       [camera_name]) (\<lambda>_. ret False))))))))))"

subsection \<open>\<^verbatim>\<open>run_collector\<close>\<close>

text \<open>\<^verbatim>\<open>{k: v for k, v in cameras.items() if k in camera_filter}\<close>\<close>

definition filter_cameras :: "string list \<Rightarrow> (string \<times> camera) list \<Rightarrow> (string \<times> camera) list" where
  "filter_cameras camera_filter cams = filter (\<lambda>(k, v). k \<in> set camera_filter) cams"

text \<open>
  From the availability test to the filter: \<open>Some cams\<close> is the camera set the loop
  will capture, \<open>None\<close> one of the three early \<^verbatim>\<open>return\<close>s.
\<close>

definition resolve_cameras ::
  "env \<Rightarrow> string list option \<Rightarrow> (string \<times> camera) list option prog" where
  "resolve_cameras env camera_filter =
     seq (get tick) (\<lambda>t.
      if \<not> available env t then
        seq (log ERROR ''Blink system not available after authentication.'' []) (\<lambda>_. ret None)
      else
        let cams = cameras env t in
        if cams = [] then
          seq (log ERROR ''No cameras found in your Blink account.'' []) (\<lambda>_. ret None)
        else
          seq (log INFO ''Cameras found: %s'' (map fst cams)) (\<lambda>_.
            case camera_filter of
              None \<Rightarrow> ret (Some cams)
            | Some f \<Rightarrow>
                if f = [] then ret (Some cams)
                else if filter_cameras f cams = [] then
                  seq (log ERROR ''None of the specified cameras were found. Available: %s''
                         (map fst cams)) (\<lambda>_. ret None)
                else ret (Some (filter_cameras f cams))))"

text \<open>\<^verbatim>\<open>for name in cameras: (frames_dir / name).mkdir(parents=True, exist_ok=True)\<close>\<close>

fun make_dirs :: "env \<Rightarrow> string \<Rightarrow> (string \<times> camera) list \<Rightarrow> unit prog" where
  "make_dirs env frames_dir [] = ret ()"
| "make_dirs env frames_dir ((name, camera) # rest) =
     seq (path_mkdir env (path_join frames_dir name)) (\<lambda>_. make_dirs env frames_dir rest)"

text \<open>The \<^verbatim>\<open>for name, camera in cameras.items()\<close> loop with its per-camera handler.\<close>

fun capture_cameras :: "env \<Rightarrow> string \<Rightarrow> (string \<times> camera) list \<Rightarrow> unit prog" where
  "capture_cameras env frames_dir [] = ret ()"
| "capture_cameras env frames_dir ((name, camera) # rest) =
     seq (try_except
            (seq (capture_frame env camera (path_join frames_dir name) name) (\<lambda>_. ret ()))
            is_Exception
            (\<lambda>e. log ERROR ''Unexpected error capturing from %s'' [name]))
       (\<lambda>_. capture_cameras env frames_dir rest)"

text \<open>The body of \<^verbatim>\<open>while True\<close>; the fuel counts the cycles that may still start.\<close>

fun cycles ::
  "nat \<Rightarrow> env \<Rightarrow> nat \<Rightarrow> string \<Rightarrow> bool \<Rightarrow> (string \<times> camera) list \<Rightarrow> world
     \<Rightarrow> ((exn + unit) \<times> world) option" where
  "cycles 0 env interval frames_dir once cams w = None"
| "cycles (Suc fuel) env interval frames_dir once cams w =
     (case seq (call (refresh env) Refresh) (\<lambda>_. capture_cameras env frames_dir cams) w of
        (Inl e, w') \<Rightarrow> Some (Inl e, w')
      | (Inr u, w') \<Rightarrow>
          if once then Some (Inr (), w')
          else
            (case seq (log INFO ''Next capture in %ds. Press Ctrl+C to stop.'' [])
                    (\<lambda>_. call (sleep env) (Sleep interval)) w' of
               (Inl e, w'') \<Rightarrow> Some (Inl e, w'')
             | (Inr u, w'') \<Rightarrow> cycles fuel env interval frames_dir once cams w''))"

text \<open>\<^verbatim>\<open>try: while True: ... except KeyboardInterrupt: log.info("Stopped by user.")\<close>\<close>

definition capture_loop ::
  "nat \<Rightarrow> env \<Rightarrow> nat \<Rightarrow> string \<Rightarrow> bool \<Rightarrow> (string \<times> camera) list \<Rightarrow> world
     \<Rightarrow> ((exn + unit) \<times> world) option" where
  "capture_loop fuel env interval frames_dir once cams w =
     (case cycles fuel env interval frames_dir once cams w of
        None \<Rightarrow> None
      | Some (Inl e, w') \<Rightarrow>
          if e = KeyboardInterrupt then Some (log INFO ''Stopped by user.'' [] w')
          else Some (Inl e, w')
      | Some (Inr u, w') \<Rightarrow> Some (Inr (), w'))"

definition run_collector ::
  "nat \<Rightarrow> env \<Rightarrow> nat \<Rightarrow> string list option \<Rightarrow> string \<Rightarrow> bool \<Rightarrow> world
     \<Rightarrow> ((exn + unit) \<times> world) option" where
  "run_collector fuel env interval camera_filter frames_dir once w =
     (case seq (authenticate env) (\<lambda>b. resolve_cameras env camera_filter) w of
        (Inl e, w') \<Rightarrow> Some (Inl e, w')
      | (Inr None, w') \<Rightarrow> Some (Inr (), w')
      | (Inr (Some cams), w') \<Rightarrow>
          (case seq (make_dirs env frames_dir cams)
                  (\<lambda>_. log INFO ''Starting capture: %d camera(s), interval=%ds%s''
                         [if once then '' [single shot]'' else '''']) w' of
             (Inl e, w'') \<Rightarrow> Some (Inl e, w'')
           | (Inr u, w'') \<Rightarrow> capture_loop fuel env interval frames_dir once cams w''))"

subsection \<open>\<^verbatim>\<open>main\<close> and the exit status of the process\<close>

text \<open>
  \<^verbatim>\<open>main\<close> runs \<^verbatim>\<open>run_collector\<close> under \<^verbatim>\<open>asyncio.run\<close> and catches nothing. The
  interpreter exits with status 0 when \<^verbatim>\<open>main\<close> returns, with the argument of an
  uncaught \<^verbatim>\<open>SystemExit\<close>, with 130 on an uncaught \<^verbatim>\<open>KeyboardInterrupt\<close> and with 1
  on any other uncaught exception.
\<close>

fun exit_code :: "exn + unit \<Rightarrow> int" where
  "exit_code (Inr u) = 0"
| "exit_code (Inl (SystemExit n)) = n"
| "exit_code (Inl KeyboardInterrupt) = 130"
| "exit_code (Inl e) = 1"

definition main ::
  "nat \<Rightarrow> env \<Rightarrow> nat \<Rightarrow> string list option \<Rightarrow> string \<Rightarrow> bool \<Rightarrow> world \<Rightarrow> (int \<times> world) option" where
  "main fuel env interval camera_filter frames_dir once w =
     map_option (\<lambda>(r, w'). (exit_code r, w'))
       (run_collector fuel env interval camera_filter frames_dir once w)"

section \<open>Reading runs\<close>

subsection \<open>The trace and the log\<close>

fun log_level :: "log_record \<Rightarrow> level" where
  "log_level (Log l fmt args) = l"

text \<open>The exception with which the call of an event ended, if it raised.\<close>

fun raised :: "event \<Rightarrow> exn option" where
  "raised (ReadText r) = (case r of Inl e \<Rightarrow> Some e | Inr x \<Rightarrow> None)"
| "raised (Start r) = (case r of Inl e \<Rightarrow> Some e | Inr x \<Rightarrow> None)"
| "raised (Input p r) = (case r of Inl e \<Rightarrow> Some e | Inr x \<Rightarrow> None)"
| "raised (Send2FA r) = (case r of Inl e \<Rightarrow> Some e | Inr x \<Rightarrow> None)"
| "raised (Save r) = (case r of Inl e \<Rightarrow> Some e | Inr x \<Rightarrow> None)"
| "raised (Mkdir p r) = (case r of Inl e \<Rightarrow> Some e | Inr x \<Rightarrow> None)"
| "raised (Refresh r) = (case r of Inl e \<Rightarrow> Some e | Inr x \<Rightarrow> None)"
| "raised (SnapPicture c r) = (case r of Inl e \<Rightarrow> Some e | Inr x \<Rightarrow> None)"
| "raised (Sleep n r) = (case r of Inl e \<Rightarrow> Some e | Inr x \<Rightarrow> None)"
| "raised (ImageToFile p r) = (case r of Inl e \<Rightarrow> Some e | Inr x \<Rightarrow> None)"

fun loop_event :: "event \<Rightarrow> bool" where
  "loop_event (Refresh r) = True"
| "loop_event (SnapPicture c r) = True"
| "loop_event (Sleep n r) = True"
| "loop_event (ImageToFile p r) = True"
| "loop_event ev = False"

text \<open>A call that ended with \<^verbatim>\<open>KeyboardInterrupt\<close>.\<close>

definition interrupted :: "event \<Rightarrow> bool" where
  "interrupted ev = (raised ev = Some KeyboardInterrupt)"

text \<open>Counting the calls of one kind in the trace.\<close>

fun is_Start :: "event \<Rightarrow> bool" where
  "is_Start (Start r) = True"
| "is_Start ev = False"

fun is_Refresh :: "event \<Rightarrow> bool" where
  "is_Refresh (Refresh r) = True"
| "is_Refresh ev = False"

fun is_Sleep :: "nat \<Rightarrow> event \<Rightarrow> bool" where
  "is_Sleep n (Sleep m r) = (m = n)"
| "is_Sleep n ev = False"

definition count :: "(event \<Rightarrow> bool) \<Rightarrow> world \<Rightarrow> nat" where
  "count P w = length (filter P (events w))"

fun is_Input :: "event \<Rightarrow> bool" where
  "is_Input (Input p r) = True"
| "is_Input ev = False"

text \<open>The calls made between two worlds of one run.\<close>

definition new_events :: "world \<Rightarrow> world \<Rightarrow> event list" where
  "new_events w w' = drop (length (events w)) (events w')"

subsection \<open>Properties of computations\<close>

text \<open>\<open>emits P m\<close>: \<open>m\<close> only appends to the trace, and every call it appends satisfies \<open>P\<close>.\<close>

definition emits :: "(event \<Rightarrow> bool) \<Rightarrow> 'a prog \<Rightarrow> bool" where
  "emits P m = (\<forall>w. \<exists>evs. events (snd (m w)) = events w @ evs \<and> (\<forall>ev \<in> set evs. P ev))"

text \<open>
  \<open>stops_at Q e m\<close>: \<open>m\<close> only appends to the trace, and when it appends a call that
  satisfies \<open>Q\<close>, it raises \<open>e\<close> and that call is its last one and its only one
  satisfying \<open>Q\<close>.
\<close>

definition halted :: "(event \<Rightarrow> bool) \<Rightarrow> exn \<Rightarrow> event list \<Rightarrow> exn + 'a \<Rightarrow> bool" where
  "halted Q e evs r =
     ((\<exists>ev \<in> set evs. Q ev) \<longrightarrow>
        r = Inl e \<and> Q (last evs) \<and> (\<forall>ev \<in> set (butlast evs). \<not> Q ev))"

definition stops_at :: "(event \<Rightarrow> bool) \<Rightarrow> exn \<Rightarrow> 'a prog \<Rightarrow> bool" where
  "stops_at Q e m =
     (\<forall>w. \<exists>evs. events (snd (m w)) = events w @ evs \<and> halted Q e evs (fst (m w)))"

text \<open>\<open>preserves R m\<close>: \<open>m\<close> relates every world to the world it leaves.\<close>

definition preserves :: "(world \<Rightarrow> world \<Rightarrow> bool) \<Rightarrow> 'a prog \<Rightarrow> bool" where
  "preserves R m = (\<forall>w. R w (snd (m w)))"

definition same :: "(world \<Rightarrow> 'b) \<Rightarrow> world \<Rightarrow> world \<Rightarrow> bool" where
  "same g w w' = (g w' = g w)"

definition file_kept :: "world \<Rightarrow> world \<Rightarrow> bool" where
  "file_kept w w' = (cred_file w \<noteq> None \<longrightarrow> cred_file w' \<noteq> None)"

text \<open>
  \<open>returns_with P m\<close>: when \<open>m\<close> returns, \<open>P\<close> holds of its result and the world it
  leaves.
\<close>

definition returns_with :: "('a \<Rightarrow> world \<Rightarrow> bool) \<Rightarrow> 'a prog \<Rightarrow> bool" where
  "returns_with P m = (\<forall>w x w'. m w = (Inr x, w') \<longrightarrow> P x w')"

definition saved_session :: "blink \<Rightarrow> world \<Rightarrow> bool" where
  "saved_session b w = (cred_file w = Some (login_attributes b))"

definition preorder_on_worlds :: "(world \<Rightarrow> world \<Rightarrow> bool) \<Rightarrow> bool" where
  "preorder_on_worlds R = ((\<forall>w. R w w) \<and> (\<forall>a b c. R a b \<longrightarrow> R b c \<longrightarrow> R a c))"

subsection \<open>Concrete environments and worlds\<close>

text \<open>
  An environment in which every outside call succeeds: nothing is set in the process
  environment, the terminal answers \<open>user\<close>, the account has the cameras \<open>front\<close> and
  \<open>back\<close>, every download writes 2048 bytes. The other environments differ from it in
  one oracle.
\<close>

definition env_ok :: env where
  "env_ok =
     \<lparr>environ = (\<lambda>name. None),
      read_text = (\<lambda>t. Inr ()),
      input = (\<lambda>t. Inr ''user''),
      start = (\<lambda>t. Inr True),
      issued = (\<lambda>t. t),
      send_2fa_code = (\<lambda>t. Inr True),
      save = (\<lambda>t. Inr ()),
      available = (\<lambda>t. True),
      cameras = (\<lambda>t. [(''front'', 0), (''back'', 1)]),
      mkdir = (\<lambda>t. Inr ()),
      refresh = (\<lambda>t. Inr ()),
      now = (\<lambda>t. ''20240101_120000''),
      snap_picture = (\<lambda>t. Inr ()),
      sleep = (\<lambda>t. Inr ()),
      image_to_file = (\<lambda>t. Inr (Some 2048))\<rparr>"

text \<open>A process that starts with no credentials file, no frames and an empty trace.\<close>

definition world0 :: world where
  "world0 = \<lparr>cred_file = None, files = Map.empty, dirs = {}, logs = [], events = []\<rparr>"

definition env_snap_interrupted :: env where
  "env_snap_interrupted = env_ok\<lparr>snap_picture := (\<lambda>t. Inl KeyboardInterrupt)\<rparr>"

definition env_snap_fails :: env where
  "env_snap_fails = env_ok\<lparr>snap_picture := (\<lambda>t. Inl OtherException)\<rparr>"

definition env_no_image :: env where
  "env_no_image = env_ok\<lparr>image_to_file := (\<lambda>t. Inr None)\<rparr>"

definition env_login_fails :: env where
  "env_login_fails = env_ok\<lparr>start := (\<lambda>t. Inr False), available := (\<lambda>t. False)\<rparr>"

definition env_start_raises :: env where
  "env_start_raises = env_ok\<lparr>start := (\<lambda>t. Inl OtherException)\<rparr>"

definition env_saved_fails :: env where
  "env_saved_fails = env_ok\<lparr>start := (\<lambda>t. if t = 1 then Inr False else Inr True)\<rparr>"

definition env_2fa_rejected :: env where
  "env_2fa_rejected =
     env_ok\<lparr>start := (\<lambda>t. Inl BlinkTwoFARequiredError), send_2fa_code := (\<lambda>t. Inr False)\<rparr>"

definition env_unavailable :: env where
  "env_unavailable = env_ok\<lparr>available := (\<lambda>t. False)\<rparr>"

text \<open>
  The inter-cycle wait of the first cycle is the sixteenth outside call of a run that
  starts with no credentials file; here it is interrupted.
\<close>

definition env_wait_interrupted :: env where
  "env_wait_interrupted = env_ok\<lparr>sleep := (\<lambda>t. if t = 15 then Inl KeyboardInterrupt else Inr ())\<rparr>"

definition env_input_interrupted :: env where
  "env_input_interrupted = env_ok\<lparr>input := (\<lambda>t. Inl KeyboardInterrupt)\<rparr>"

definition world_saved :: world where
  "world_saved = world0\<lparr>cred_file := Some (Session 7)\<rparr>"

section \<open>Properties\<close>

lemmas prog_defs = ret_def throw_def seq_def try_except_def call_def get_def modify_def log_def
  tick_def Let_def

lemmas env_defs = env_ok_def world0_def

lemmas lib_defs = logged_in_def blink_start_def blink_save_def camera_image_to_file_def
  path_mkdir_def

lemmas auth_defs = do_2fa_def environ_or_input_def fresh_login_def saved_login_def
  authenticate_def

named_theorems emits_intros
named_theorems stops_intros
named_theorems preserves_intros

subsection \<open>Sequencing\<close>

lemma seq_assoc: "seq (seq m f) g = seq m (\<lambda>x. seq (f x) g)"
  by (rule ext) (simp add: seq_def split: prod.splits sum.splits)

lemma seq_ret: "seq (ret x) f = f x"
  by (rule ext) (simp add: seq_def ret_def)

lemma seq_InrE:
  assumes "seq m f w = (Inr y, w')"
  obtains x w1 where "m w = (Inr x, w1)" "f x w1 = (Inr y, w')"
proof (cases "m w")
  case (Pair r w1)
  with assms that show thesis by (cases r) (simp_all add: seq_def)
qed

lemma capture_cameras_append:
  "capture_cameras env d (xs @ ys) = seq (capture_cameras env d xs) (\<lambda>_. capture_cameras env d ys)"
proof (induction xs)
  case Nil
  show ?case by (simp add: seq_ret)
next
  case (Cons x xs)
  obtain name camera where x: "x = (name, camera)" by (cases x)
  show ?case by (simp add: x Cons.IH seq_assoc)
qed

subsection \<open>What a computation adds to the trace\<close>

lemma emits_ret [emits_intros]: "emits P (ret x)"
  by (simp add: emits_def prog_defs)

lemma emits_throw [emits_intros]: "emits P (throw e)"
  by (simp add: emits_def prog_defs)

lemma emits_get [emits_intros]: "emits P (get f)"
  by (simp add: emits_def prog_defs)

lemma emits_log [emits_intros]: "emits P (log l fmt args)"
  by (simp add: emits_def prog_defs)

lemma emits_modify [emits_intros]: "(\<And>w. events (f w) = events w) \<Longrightarrow> emits P (modify f)"
  by (simp add: emits_def prog_defs)

lemma emits_call [emits_intros]: "(\<And>r. P (ev r)) \<Longrightarrow> emits P (call oracle ev)"
  by (simp add: emits_def prog_defs)

lemma emits_seq [emits_intros]:
  assumes "emits P m" and "\<And>x. emits P (f x)"
  shows "emits P (seq m f)"
  unfolding emits_def
proof
  fix w
  from assms(1) obtain evs1 where 1: "events (snd (m w)) = events w @ evs1" "\<forall>ev \<in> set evs1. P ev"
    unfolding emits_def by blast
  show "\<exists>evs. events (snd (seq m f w)) = events w @ evs \<and> (\<forall>ev \<in> set evs. P ev)"
  proof (cases "m w")
    case (Pair r w1)
    show ?thesis
    proof (cases r)
      case (Inl e)
      with Pair 1 show ?thesis by (auto simp: seq_def)
    next
      case (Inr x)
      from assms(2) [of x] obtain evs2 where
        2: "events (snd (f x w1)) = events w1 @ evs2" "\<forall>ev \<in> set evs2. P ev"
        unfolding emits_def by blast
      with Pair Inr 1 show ?thesis by (auto simp: seq_def)
    qed
  qed
qed

lemma emits_try [emits_intros]:
  assumes "emits P m" and "\<And>e. emits P (h e)"
  shows "emits P (try_except m c h)"
  unfolding emits_def
proof
  fix w
  from assms(1) obtain evs1 where 1: "events (snd (m w)) = events w @ evs1" "\<forall>ev \<in> set evs1. P ev"
    unfolding emits_def by blast
  show "\<exists>evs. events (snd (try_except m c h w)) = events w @ evs \<and> (\<forall>ev \<in> set evs. P ev)"
  proof (cases "m w")
    case (Pair r w1)
    show ?thesis
    proof (cases r)
      case (Inr x)
      with Pair 1 show ?thesis by (auto simp: try_except_def)
    next
      case (Inl e)
      from assms(2) [of e] obtain evs2 where
        2: "events (snd (h e w1)) = events w1 @ evs2" "\<forall>ev \<in> set evs2. P ev"
        unfolding emits_def by blast
      with Pair Inl 1 show ?thesis by (auto simp: try_except_def)
    qed
  qed
qed

lemma emitsD: "emits P m \<Longrightarrow> m w = (r, w') \<Longrightarrow> \<exists>evs. events w' = events w @ evs \<and> (\<forall>ev \<in> set evs. P ev)"
  unfolding emits_def by (metis snd_conv)

lemma new_events_append: "events w' = events w @ evs \<Longrightarrow> new_events w w' = evs"
  by (simp add: new_events_def)

subsection \<open>Where a computation stops\<close>

lemma halted_Nil: "halted Q e [] r"
  by (simp add: halted_def)

lemma halted_Inr: "halted Q e evs (Inr x) \<Longrightarrow> \<forall>ev \<in> set evs. \<not> Q ev"
  by (auto simp: halted_def)

lemma halted_other: "halted Q e evs (Inl e') \<Longrightarrow> e' \<noteq> e \<Longrightarrow> \<forall>ev \<in> set evs. \<not> Q ev"
  by (auto simp: halted_def)

lemma halted_append:
  assumes "\<forall>ev \<in> set evs1. \<not> Q ev" and "halted Q e evs2 r"
  shows "halted Q e (evs1 @ evs2) r"
proof (cases "\<exists>ev \<in> set evs2. Q ev")
  case False
  with assms(1) show ?thesis by (auto simp: halted_def)
next
  case True
  then have ne: "evs2 \<noteq> []" by auto
  from True assms(2) have "r = Inl e" "Q (last evs2)" "\<forall>ev \<in> set (butlast evs2). \<not> Q ev"
    by (simp_all add: halted_def)
  with ne assms(1) show ?thesis by (simp add: halted_def butlast_append ball_Un)
qed

lemma stops_atI:
  "(\<And>w. \<exists>evs. events (snd (m w)) = events w @ evs \<and> halted Q e evs (fst (m w)))
     \<Longrightarrow> stops_at Q e m"
  by (simp add: stops_at_def)

lemma stops_atD:
  "stops_at Q e m \<Longrightarrow> \<exists>evs. events (snd (m w)) = events w @ evs \<and> halted Q e evs (fst (m w))"
  by (simp add: stops_at_def)

lemma stops_ret [stops_intros]: "stops_at Q e (ret x)"
  by (simp add: stops_at_def prog_defs halted_Nil)

lemma stops_throw [stops_intros]: "stops_at Q e (throw e')"
  by (simp add: stops_at_def prog_defs halted_Nil)

lemma stops_get [stops_intros]: "stops_at Q e (get f)"
  by (simp add: stops_at_def prog_defs halted_Nil)

lemma stops_log [stops_intros]: "stops_at Q e (log l fmt args)"
  by (simp add: stops_at_def prog_defs halted_Nil)

lemma stops_modify [stops_intros]: "(\<And>w. events (f w) = events w) \<Longrightarrow> stops_at Q e (modify f)"
  by (simp add: stops_at_def prog_defs halted_Nil)

lemma stops_call [stops_intros]:
  assumes "\<And>r. Q (ev r) \<Longrightarrow> r = Inl e"
  shows "stops_at Q e (call oracle ev)"
proof (rule stops_atI)
  fix w
  have "halted Q e [ev (oracle (tick w))] (oracle (tick w))"
    using assms by (auto simp: halted_def)
  then show "\<exists>evs. events (snd (call oracle ev w)) = events w @ evs
               \<and> halted Q e evs (fst (call oracle ev w))"
    by (simp add: call_def)
qed

lemma stops_seq [stops_intros]:
  assumes "stops_at Q e m" and "\<And>x. stops_at Q e (f x)"
  shows "stops_at Q e (seq m f)"
proof (rule stops_atI)
  fix w
  obtain r w1 where mw: "m w = (r, w1)" by (cases "m w")
  from stops_atD [OF assms(1), of w] mw obtain evs1 where
    1: "events w1 = events w @ evs1" "halted Q e evs1 r" by auto
  show "\<exists>evs. events (snd (seq m f w)) = events w @ evs \<and> halted Q e evs (fst (seq m f w))"
  proof (cases r)
    case (Inl e')
    with mw have "seq m f w = (Inl e', w1)" by (simp add: seq_def)
    with 1 Inl show ?thesis by (simp add: halted_def)
  next
    case (Inr x)
    with mw have s: "seq m f w = f x w1" by (simp add: seq_def)
    from stops_atD [OF assms(2), of x w1] obtain evs2 where
      2: "events (snd (f x w1)) = events w1 @ evs2" "halted Q e evs2 (fst (f x w1))" by auto
    from 1 Inr have "\<forall>ev \<in> set evs1. \<not> Q ev" by (simp add: halted_Inr)
    then have "halted Q e (evs1 @ evs2) (fst (f x w1))" using 2(2) by (rule halted_append)
    moreover have "events (snd (f x w1)) = events w @ (evs1 @ evs2)" using 1 2 by simp
    ultimately show ?thesis unfolding s by blast
  qed
qed

lemma stops_try [stops_intros]:
  assumes "stops_at Q e m" and "\<And>e'. stops_at Q e (h e')" and "\<not> c e"
  shows "stops_at Q e (try_except m c h)"
proof (rule stops_atI)
  fix w
  obtain r w1 where mw: "m w = (r, w1)" by (cases "m w")
  from stops_atD [OF assms(1), of w] mw obtain evs1 where
    1: "events w1 = events w @ evs1" "halted Q e evs1 r" by auto
  show "\<exists>evs. events (snd (try_except m c h w)) = events w @ evs
          \<and> halted Q e evs (fst (try_except m c h w))"
  proof (cases r)
    case (Inr x)
    with mw have "try_except m c h w = (Inr x, w1)" by (simp add: try_except_def)
    with 1 Inr show ?thesis by simp
  next
    case (Inl e')
    show ?thesis
    proof (cases "c e'")
      case False
      with mw Inl have "try_except m c h w = (Inl e', w1)" by (simp add: try_except_def)
      with 1 Inl show ?thesis by simp
    next
      case True
      with mw Inl have s: "try_except m c h w = h e' w1" by (simp add: try_except_def)
      from True assms(3) have "e' \<noteq> e" by auto
      with 1 Inl have no1: "\<forall>ev \<in> set evs1. \<not> Q ev" by (simp add: halted_other)
      from stops_atD [OF assms(2), of e' w1] obtain evs2 where
        2: "events (snd (h e' w1)) = events w1 @ evs2" "halted Q e evs2 (fst (h e' w1))" by auto
      from no1 2(2) have "halted Q e (evs1 @ evs2) (fst (h e' w1))" by (rule halted_append)
      moreover have "events (snd (h e' w1)) = events w @ (evs1 @ evs2)" using 1 2 by simp
      ultimately show ?thesis unfolding s by blast
    qed
  qed
qed

subsection \<open>What a computation keeps, and what it returns with\<close>

lemma preorder_same: "preorder_on_worlds (same g)"
  by (simp add: preorder_on_worlds_def same_def)

lemma preorder_file_kept: "preorder_on_worlds file_kept"
  by (simp add: preorder_on_worlds_def file_kept_def)

lemma preserves_ret [preserves_intros]: "preorder_on_worlds R \<Longrightarrow> preserves R (ret x)"
  by (simp add: preserves_def preorder_on_worlds_def prog_defs)

lemma preserves_throw [preserves_intros]: "preorder_on_worlds R \<Longrightarrow> preserves R (throw e)"
  by (simp add: preserves_def preorder_on_worlds_def prog_defs)

lemma preserves_get [preserves_intros]: "preorder_on_worlds R \<Longrightarrow> preserves R (get f)"
  by (simp add: preserves_def preorder_on_worlds_def prog_defs)

lemma preserves_modify [preserves_intros]: "(\<And>w. R w (f w)) \<Longrightarrow> preserves R (modify f)"
  by (simp add: preserves_def prog_defs)

lemma preserves_log [preserves_intros]:
  "(\<And>w ls. R w (w\<lparr>logs := ls\<rparr>)) \<Longrightarrow> preserves R (log l fmt args)"
  by (simp add: log_def preserves_modify)

lemma preserves_call [preserves_intros]:
  "(\<And>w evs. R w (w\<lparr>events := evs\<rparr>)) \<Longrightarrow> preserves R (call oracle ev)"
  by (simp add: preserves_def call_def)

lemma preserves_seq [preserves_intros]:
  assumes "preorder_on_worlds R" and "preserves R m" and "\<And>x. preserves R (f x)"
  shows "preserves R (seq m f)"
  unfolding preserves_def
proof
  fix w
  from assms(2) have 1: "R w (snd (m w))" by (simp add: preserves_def)
  show "R w (snd (seq m f w))"
  proof (cases "m w")
    case (Pair r w1)
    show ?thesis
    proof (cases r)
      case (Inl e)
      with Pair 1 show ?thesis by (simp add: seq_def)
    next
      case (Inr x)
      from assms(3) [of x] have "R w1 (snd (f x w1))" by (simp add: preserves_def)
      with Pair 1 assms(1) have "R w (snd (f x w1))"
        unfolding preorder_on_worlds_def by (metis snd_conv)
      with Pair Inr show ?thesis by (simp add: seq_def)
    qed
  qed
qed

lemma preserves_try [preserves_intros]:
  assumes "preorder_on_worlds R" and "preserves R m" and "\<And>e. preserves R (h e)"
  shows "preserves R (try_except m c h)"
  unfolding preserves_def
proof
  fix w
  from assms(2) have 1: "R w (snd (m w))" by (simp add: preserves_def)
  show "R w (snd (try_except m c h w))"
  proof (cases "m w")
    case (Pair r w1)
    show ?thesis
    proof (cases r)
      case (Inr x)
      with Pair 1 show ?thesis by (simp add: try_except_def)
    next
      case (Inl e)
      from assms(3) [of e] have "R w1 (snd (h e w1))" by (simp add: preserves_def)
      with Pair 1 assms(1) have "R w (snd (h e w1))"
        unfolding preorder_on_worlds_def by (metis snd_conv)
      with Pair Inl 1 show ?thesis by (simp add: try_except_def)
    qed
  qed
qed

lemma returns_with_seq: "(\<And>x. returns_with P (f x)) \<Longrightarrow> returns_with P (seq m f)"
  unfolding returns_with_def by (metis seq_InrE)

lemma returns_with_try:
  assumes "returns_with P m" and "\<And>e. returns_with P (h e)"
  shows "returns_with P (try_except m c h)"
  unfolding returns_with_def
proof (intro allI impI)
  fix w x w'
  assume t: "try_except m c h w = (Inr x, w')"
  obtain r w1 where mw: "m w = (r, w1)" by (cases "m w")
  show "P x w'"
  proof (cases r)
    case (Inr y)
    with t mw have "m w = (Inr x, w')" by (simp add: try_except_def)
    with assms(1) show ?thesis by (simp add: returns_with_def)
  next
    case (Inl e)
    with t mw have "h e w1 = (Inr x, w')" by (simp add: try_except_def split: if_splits)
    with assms(2) [of e] show ?thesis by (simp add: returns_with_def)
  qed
qed

subsection \<open>The camera filter\<close>

lemma filter_cameras_names:
  "map fst (filter_cameras f cams) = filter (\<lambda>k. k \<in> set f) (map fst cams)"
  by (induction cams) (auto simp: filter_cameras_def)

text \<open>
  Claim C7. When the session is available and the name filter shares a name with the
  discovered cameras, the resolved camera set is exactly the discovered cameras whose
  name is in the filter, in the order of discovery.
\<close>

theorem resolve_cameras_filter:
  assumes "available env (tick w)"
    and "set f \<inter> fst ` set (cameras env (tick w)) \<noteq> {}"
  shows "\<exists>cs w'. resolve_cameras env (Some f) w = (Inr (Some cs), w')
           \<and> set cs = {(k, v). (k, v) \<in> set (cameras env (tick w)) \<and> k \<in> set f}
           \<and> subseq cs (cameras env (tick w))
           \<and> map fst cs = filter (\<lambda>k. k \<in> set f) (map fst (cameras env (tick w)))"
proof -
  let ?cams = "cameras env (tick w)"
  from assms(2) obtain k v where kv: "(k, v) \<in> set ?cams" "k \<in> set f" by auto
  then have ne: "filter_cameras f ?cams \<noteq> []" "?cams \<noteq> []" "f \<noteq> []"
    by (auto simp: filter_cameras_def filter_empty_conv)
  have "resolve_cameras env (Some f) w =
          (Inr (Some (filter_cameras f ?cams)),
           w\<lparr>logs := logs w @ [Log INFO ''Cameras found: %s'' (map fst ?cams)]\<rparr>)"
    using assms(1) ne by (simp add: resolve_cameras_def prog_defs)
  moreover have "set (filter_cameras f ?cams) = {(k, v). (k, v) \<in> set ?cams \<and> k \<in> set f}"
    by (auto simp: filter_cameras_def)
  moreover have "subseq (filter_cameras f ?cams) ?cams"
    by (simp add: filter_cameras_def)
  ultimately show ?thesis using filter_cameras_names by blast
qed

theorem resolve_cameras_filter_witness:
  "available env_ok (tick world0)
   \<and> set [''back'', ''garage''] \<inter> fst ` set (cameras env_ok (tick world0)) \<noteq> {}
   \<and> (\<exists>cs w'. resolve_cameras env_ok (Some [''back'', ''garage'']) world0 = (Inr (Some cs), w')
         \<and> map fst cs = [''back''])"
proof -
  have a: "available env_ok (tick world0)"
    by (simp add: env_defs tick_def)
  have b: "set [''back'', ''garage''] \<inter> fst ` set (cameras env_ok (tick world0)) \<noteq> {}"
    by (simp add: env_defs tick_def)
  from resolve_cameras_filter [OF a b] obtain cs w' where
    "resolve_cameras env_ok (Some [''back'', ''garage'']) world0 = (Inr (Some cs), w')"
    "map fst cs = filter (\<lambda>k. k \<in> set [''back'', ''garage''])
                    (map fst (cameras env_ok (tick world0)))"
    by blast
  then have "resolve_cameras env_ok (Some [''back'', ''garage'']) world0 = (Inr (Some cs), w')
               \<and> map fst cs = [''back'']"
    by (simp add: env_defs tick_def)
  then have "\<exists>cs w'. resolve_cameras env_ok (Some [''back'', ''garage'']) world0
                 = (Inr (Some cs), w') \<and> map fst cs = [''back'']"
    by (intro exI)
  with a b show ?thesis by (intro conjI)
qed

subsection \<open>One capture\<close>

lemma capture_frame_logs:
  "capture_frame env camera output_dir name w = (r, w') \<Longrightarrow>
     \<exists>ls. logs w' = logs w @ ls \<and> (\<forall>l \<in> set ls. log_level l \<noteq> ERROR)"
  by (auto simp: capture_frame_def camera_image_to_file_def prog_defs
           split: sum.splits option.splits if_splits)

text \<open>
  Claim C6. A capture returns true only when the output file exists with a size above
  zero. When none of its four awaited calls raises and the output file is absent or
  empty afterwards, \<open>capture_frame\<close> returns false (it does not raise), its last log
  record is the warning, and the loop over the cameras goes on with the next camera.
\<close>

theorem capture_frame_missing_or_empty:
  assumes run: "capture_frame env camera (path_join frames_dir name) name w = (r, w')"
    and fn: "filename = path_join (path_join frames_dir name) (now env (tick w) @ ''.jpg'')"
  shows "(r = Inr True \<longrightarrow> (\<exists>n>0. files w' filename = Some n))
       \<and> (snap_picture env (tick w) = Inr () \<and> sleep env (tick w + 1) = Inr ()
            \<and> refresh env (tick w + 2) = Inr () \<and> (\<exists>x. image_to_file env (tick w + 3) = Inr x)
            \<and> (files w' filename = None \<or> files w' filename = Some 0)
          \<longrightarrow> r = Inr False
              \<and> last (logs w')
                  = Log WARNING ''Frame capture failed for %s - file missing or empty.'' [name]
              \<and> capture_cameras env frames_dir ((name, camera) # rest) w
                  = capture_cameras env frames_dir rest w')"
proof -
  have t: "r = Inr True \<longrightarrow> (\<exists>n>0. files w' filename = Some n)"
    using run unfolding fn capture_frame_def camera_image_to_file_def
    by (auto simp: prog_defs eval_nat_numeral split: sum.splits option.splits if_splits)
  have f: "r = Inr False
             \<and> last (logs w')
                 = Log WARNING ''Frame capture failed for %s - file missing or empty.'' [name]"
    if "snap_picture env (tick w) = Inr ()" "sleep env (tick w + 1) = Inr ()"
       "refresh env (tick w + 2) = Inr ()" "image_to_file env (tick w + 3) = Inr x"
       "files w' filename = None \<or> files w' filename = Some 0" for x
    using run that unfolding fn capture_frame_def camera_image_to_file_def
    by (auto simp: prog_defs eval_nat_numeral split: sum.splits option.splits if_splits)
  have "capture_cameras env frames_dir ((name, camera) # rest) w
          = capture_cameras env frames_dir rest w'" if "r = Inr False"
    using run that by (simp add: seq_def try_except_def ret_def)
  with t f show ?thesis by blast
qed

theorem capture_frame_missing_or_empty_witness:
  "fst (capture_frame env_no_image 0 (path_join ''frames'' ''front'') ''front'' world0) = Inr False
   \<and> files (snd (capture_frame env_no_image 0 (path_join ''frames'' ''front'') ''front'' world0))
        ''frames/front/20240101_120000.jpg'' = None
   \<and> capture_cameras env_no_image ''frames'' [(''front'', 0), (''back'', 1)] world0
        = capture_cameras env_no_image ''frames'' [(''back'', 1)]
            (snd (capture_frame env_no_image 0 (path_join ''frames'' ''front'') ''front'' world0))"
proof -
  let ?run = "capture_frame env_no_image 0 (path_join ''frames'' ''front'') ''front'' world0"
  have run: "?run = (fst ?run, snd ?run)" by simp
  have fn: "''frames/front/20240101_120000.jpg''
              = path_join (path_join ''frames'' ''front'') (now env_no_image (tick world0) @ ''.jpg'')"
    by (simp add: env_defs env_no_image_def tick_def path_join_def)
  have calls: "snap_picture env_no_image (tick world0) = Inr ()"
    "sleep env_no_image (tick world0 + 1) = Inr ()"
    "refresh env_no_image (tick world0 + 2) = Inr ()"
    "\<exists>x. image_to_file env_no_image (tick world0 + 3) = Inr x"
    by (simp_all add: env_defs env_no_image_def)
  have absent: "files (snd ?run) ''frames/front/20240101_120000.jpg'' = None"
    by (simp add: capture_frame_def camera_image_to_file_def prog_defs env_defs env_no_image_def path_join_def)
  from capture_frame_missing_or_empty [OF run fn, of "[(''back'', 1)]"] calls absent
  show ?thesis by simp
qed

text \<open>
  Claim C2, as the code has it. \<open>capture_frame\<close> returns a boolean exactly when none
  of its four awaited calls (snapshot trigger, settle delay, forced refresh, download)
  raises. When one of them raises, \<open>capture_frame\<close> raises that exception: it has no
  handler of its own. The handler is in the loop over the cameras, which catches the
  exception when it is an instance of \<^verbatim>\<open>Exception\<close>, logs it and goes on with the
  next camera.
\<close>

theorem capture_frame_outcome:
  assumes run: "capture_frame env camera (path_join frames_dir name) name w = (r, w')"
  shows "((\<exists>b. r = Inr b) \<longleftrightarrow>
            snap_picture env (tick w) = Inr () \<and> sleep env (tick w + 1) = Inr ()
            \<and> refresh env (tick w + 2) = Inr () \<and> (\<exists>x. image_to_file env (tick w + 3) = Inr x))
       \<and> (\<forall>e. r = Inl e \<longrightarrow>
            (snap_picture env (tick w) = Inl e \<or> sleep env (tick w + 1) = Inl e
              \<or> refresh env (tick w + 2) = Inl e \<or> image_to_file env (tick w + 3) = Inl e)
            \<and> (is_Exception e \<longrightarrow>
                 capture_cameras env frames_dir ((name, camera) # rest) w
                   = capture_cameras env frames_dir rest
                       (w'\<lparr>logs := logs w'
                              @ [Log ERROR ''Unexpected error capturing from %s'' [name]]\<rparr>)))"
proof -
  have a: "(\<exists>b. r = Inr b) \<longleftrightarrow>
            snap_picture env (tick w) = Inr () \<and> sleep env (tick w + 1) = Inr ()
            \<and> refresh env (tick w + 2) = Inr () \<and> (\<exists>x. image_to_file env (tick w + 3) = Inr x)"
    using run unfolding capture_frame_def camera_image_to_file_def
    by (auto simp: prog_defs eval_nat_numeral split: sum.splits option.splits if_splits)
  have b: "snap_picture env (tick w) = Inl e \<or> sleep env (tick w + 1) = Inl e
              \<or> refresh env (tick w + 2) = Inl e \<or> image_to_file env (tick w + 3) = Inl e"
    if "r = Inl e" for e
    using run that unfolding capture_frame_def camera_image_to_file_def
    by (auto simp: prog_defs eval_nat_numeral split: sum.splits option.splits if_splits)
  have c: "capture_cameras env frames_dir ((name, camera) # rest) w
             = capture_cameras env frames_dir rest
                 (w'\<lparr>logs := logs w' @ [Log ERROR ''Unexpected error capturing from %s'' [name]]\<rparr>)"
    if "r = Inl e" "is_Exception e" for e
    using run that by (simp add: prog_defs)
  from a b c show ?thesis by blast
qed

theorem capture_frame_outcome_witness:
  "fst (capture_frame env_snap_fails 0 (path_join ''frames'' ''front'') ''front'' world0)
     = Inl OtherException
   \<and> snap_picture env_snap_fails (tick world0) = Inl OtherException
   \<and> capture_cameras env_snap_fails ''frames'' [(''front'', 0)] world0
       = (Inr (),
          world0\<lparr>logs := [Log INFO ''Triggering snapshot on %s...'' [''front''],
                          Log ERROR ''Unexpected error capturing from %s'' [''front'']],
                 events := [SnapPicture 0 (Inl OtherException)]\<rparr>)"
proof -
  let ?run = "capture_frame env_snap_fails 0 (path_join ''frames'' ''front'') ''front'' world0"
  have run: "?run = (fst ?run, snd ?run)" by simp
  have val: "?run = (Inl OtherException,
               world0\<lparr>logs := [Log INFO ''Triggering snapshot on %s...'' [''front'']],
                      events := [SnapPicture 0 (Inl OtherException)]\<rparr>)"
    by (simp add: capture_frame_def prog_defs env_defs env_snap_fails_def)
  from capture_frame_outcome [OF run, of "[]"] val
  show ?thesis by (simp add: ret_def env_defs env_snap_fails_def)
qed

text \<open>
  Claim C2, as stated, fails: when the snapshot trigger raises, \<open>capture_frame\<close> raises.
\<close>

theorem capture_frame_raises:
  "fst (capture_frame env_snap_fails 0 ''frames/front'' ''front'' world0) = Inl OtherException"
  by (simp add: capture_frame_def prog_defs env_defs env_snap_fails_def)

subsection \<open>The loop over the cameras\<close>

text \<open>
  Claim C10. When the capture of a camera raises \<^verbatim>\<open>KeyboardInterrupt\<close> or
  \<^verbatim>\<open>SystemExit\<close>, after the cameras before it were handled, the loop over the cameras
  raises that exception in the world the capture left: the per-camera handler adds no
  log record (the records of the capture itself are below the level of an error), the
  cameras after it are not attempted, and the cycle raises the exception as well.
\<close>

theorem capture_cameras_base_exception:
  assumes before: "capture_cameras env frames_dir before w = (Inr (), w1)"
    and raised: "capture_frame env camera (path_join frames_dir name) name w1 = (Inl e, w2)"
    and base: "e = KeyboardInterrupt \<or> e = SystemExit n"
  shows "capture_cameras env frames_dir (before @ (name, camera) # rest) w = (Inl e, w2)
         \<and> (\<forall>l \<in> set (drop (length (logs w1)) (logs w2)). log_level l \<noteq> ERROR)
         \<and> (refresh env (tick w0) = Inr () \<and> w = w0\<lparr>events := events w0 @ [Refresh (Inr ())]\<rparr>
              \<longrightarrow> cycles (Suc fuel) env interval frames_dir once
                    (before @ (name, camera) # rest) w0 = Some (Inl e, w2))"
proof -
  from base have ne: "\<not> is_Exception e" by auto
  have one: "capture_cameras env frames_dir ((name, camera) # rest) w1 = (Inl e, w2)"
    using raised ne by (simp add: seq_def try_except_def)
  have all: "capture_cameras env frames_dir (before @ (name, camera) # rest) w = (Inl e, w2)"
    using before one by (simp add: capture_cameras_append seq_def)
  from capture_frame_logs [OF raised]
  have lg: "\<forall>l \<in> set (drop (length (logs w1)) (logs w2)). log_level l \<noteq> ERROR" by auto
  have "cycles (Suc fuel) env interval frames_dir once (before @ (name, camera) # rest) w0
          = Some (Inl e, w2)"
    if "refresh env (tick w0) = Inr ()" "w = w0\<lparr>events := events w0 @ [Refresh (Inr ())]\<rparr>"
  proof -
    have "call (refresh env) Refresh w0 = (Inr (), w)"
      using that by (simp add: call_def)
    then show ?thesis using all by (simp add: seq_def)
  qed
  with all lg show ?thesis by blast
qed

theorem capture_cameras_base_exception_witness:
  "capture_cameras env_snap_interrupted ''frames'' [(''front'', 0), (''back'', 1)]
     (world0\<lparr>events := [Refresh (Inr ())]\<rparr>)
     = (Inl KeyboardInterrupt,
        world0\<lparr>logs := [Log INFO ''Triggering snapshot on %s...'' [''front'']],
               events := [Refresh (Inr ()), SnapPicture 0 (Inl KeyboardInterrupt)]\<rparr>)
   \<and> cycles (Suc 0) env_snap_interrupted 600 ''frames'' False [(''front'', 0), (''back'', 1)]
       world0
     = Some (Inl KeyboardInterrupt,
        world0\<lparr>logs := [Log INFO ''Triggering snapshot on %s...'' [''front'']],
               events := [Refresh (Inr ()), SnapPicture 0 (Inl KeyboardInterrupt)]\<rparr>)"
proof -
  let ?w = "world0\<lparr>events := [Refresh (Inr ())]\<rparr>"
  let ?w2 = "world0\<lparr>logs := [Log INFO ''Triggering snapshot on %s...'' [''front'']],
               events := [Refresh (Inr ()), SnapPicture 0 (Inl KeyboardInterrupt)]\<rparr>"
  have before: "capture_cameras env_snap_interrupted ''frames'' [] ?w = (Inr (), ?w)"
    by (simp add: ret_def)
  have raised: "capture_frame env_snap_interrupted 0 (path_join ''frames'' ''front'') ''front'' ?w
      = (Inl KeyboardInterrupt, ?w2)"
    by (simp add: capture_frame_def prog_defs env_defs env_snap_interrupted_def)
  have r: "refresh env_snap_interrupted (tick world0) = Inr ()"
    and w: "?w = world0\<lparr>events := events world0 @ [Refresh (Inr ())]\<rparr>"
    by (simp_all add: env_defs env_snap_interrupted_def)
  from capture_cameras_base_exception
         [OF before raised, of 0 "[(''back'', 1)]" world0 0 600 False] r w
  show ?thesis by simp
qed

subsection \<open>Authentication\<close>

lemma authenticate_emits: "emits (\<lambda>ev. \<not> loop_event ev) (authenticate env)"
  unfolding auth_defs lib_defs
  by (auto intro!: emits_intros split: option.split prod.split)

lemma authenticate_same_files: "preserves (same files) (authenticate env)"
  unfolding auth_defs lib_defs
  by (auto intro!: preserves_intros preorder_same split: option.split prod.split simp: same_def)

lemma authenticate_same_dirs: "preserves (same dirs) (authenticate env)"
  unfolding auth_defs lib_defs
  by (auto intro!: preserves_intros preorder_same split: option.split prod.split simp: same_def)

lemma authenticate_file_kept: "preserves file_kept (authenticate env)"
  unfolding auth_defs lib_defs
  by (auto intro!: preserves_intros preorder_file_kept split: option.split prod.split
           simp: file_kept_def)

lemma authenticate_returns:
  "authenticate env w = (r, w1) \<Longrightarrow>
     \<exists>evs. events w1 = events w @ evs \<and> (\<forall>ev \<in> set evs. \<not> loop_event ev)
       \<and> files w1 = files w \<and> dirs w1 = dirs w"
  using authenticate_emits [of env] authenticate_same_files [of env] authenticate_same_dirs [of env]
  unfolding emits_def preserves_def same_def
  by (metis snd_conv)

text \<open>
  Whenever \<open>authenticate\<close> returns a session, the credentials file holds the login
  attributes of that session: every path that returns goes through \<^verbatim>\<open>blink.save\<close>.
\<close>

lemma save_then_return:
  "returns_with saved_session (seq (blink_save env b) (\<lambda>_. seq (log l fmt args) (\<lambda>_. ret b)))"
  by (auto simp: returns_with_def saved_session_def blink_save_def prog_defs split: sum.splits)

lemma save_then_return_Some:
  "returns_with (\<lambda>r w. case r of None \<Rightarrow> True | Some b \<Rightarrow> saved_session b w)
     (seq (blink_save env b) (\<lambda>_. ret (Some b)))"
  by (auto simp: returns_with_def saved_session_def blink_save_def prog_defs split: sum.splits)

lemma fresh_login_saves: "returns_with saved_session (fresh_login env)"
  unfolding fresh_login_def
  by (intro returns_with_seq save_then_return)

lemma saved_login_saves:
  "returns_with (\<lambda>r w. case r of None \<Rightarrow> True | Some b \<Rightarrow> saved_session b w) (saved_login env c)"
proof -
  let ?P = "\<lambda>r w. case r of None \<Rightarrow> True | Some b \<Rightarrow> saved_session b w"
  have a: "returns_with ?P (seq (log l fmt args) (\<lambda>_. ret None))" for l fmt args
    by (auto simp: returns_with_def prog_defs)
  have b: "returns_with ?P (if started then seq (blink_save env b) (\<lambda>_. ret (Some b))
             else seq (log l fmt args) (\<lambda>_. ret None))" for started b l fmt args
    using a save_then_return_Some by simp
  show ?thesis
    unfolding saved_login_def
  proof (rule returns_with_seq, rule returns_with_seq, rule returns_with_try)
    show "returns_with ?P
            (seq (blink_start env \<lparr>login_attributes = c, no_prompt = True\<rparr>)
               (\<lambda>(started, b).
                   if started then seq (blink_save env b) (\<lambda>_. ret (Some b))
                   else seq (log WARNING ''Saved credentials failed, falling back to login.'' [])
                          (\<lambda>_. ret None)))"
      by (rule returns_with_seq) (simp add: split_def b)
    show "returns_with ?P
            (seq (do_2fa env \<lparr>login_attributes = c, no_prompt = True\<rparr>)
               (\<lambda>b. seq (blink_save env b) (\<lambda>_. ret (Some b))))" for e
      by (rule returns_with_seq) (rule save_then_return_Some)
  qed
qed

lemma authenticate_saves_session:
  assumes "authenticate env w = (Inr b, w')"
  shows "cred_file w' = Some (login_attributes b)"
proof (cases "cred_file w")
  case None
  with assms have "fresh_login env w = (Inr b, w')" by (simp add: authenticate_def prog_defs)
  with fresh_login_saves show ?thesis by (simp add: returns_with_def saved_session_def)
next
  case (Some c)
  with assms have "seq (saved_login env c)
      (\<lambda>r. case r of Some b \<Rightarrow> ret b | None \<Rightarrow> fresh_login env) w = (Inr b, w')"
    by (simp add: authenticate_def get_def seq_def)
  then obtain r w1 where s: "saved_login env c w = (Inr r, w1)"
    and k: "(case r of Some b \<Rightarrow> ret b | None \<Rightarrow> fresh_login env) w1 = (Inr b, w')"
    by (rule seq_InrE)
  show ?thesis
  proof (cases r)
    case None
    with k have "fresh_login env w1 = (Inr b, w')" by simp
    with fresh_login_saves show ?thesis by (simp add: returns_with_def saved_session_def)
  next
    case (Some b0)
    with k have "b0 = b" "w1 = w'" by (simp_all add: ret_def)
    moreover from saved_login_saves [of env c] s Some have "saved_session b0 w1"
      unfolding returns_with_def by force
    ultimately show ?thesis by (simp add: saved_session_def)
  qed
qed

text \<open>
  Claim C1 on the code. With no credentials file and a fresh login whose session start
  returns false, \<open>authenticate\<close> ignores the answer of \<^verbatim>\<open>blink.start()\<close>, saves the
  login attributes of the session (user name and password, no issued session) to the
  credentials file and returns the session.
\<close>

theorem failed_fresh_login_is_saved:
  "authenticate env_login_fails world0
     = (Inr \<lparr>login_attributes = Login ''user'' ''user'', no_prompt = False\<rparr>,
        world0\<lparr>cred_file := Some (Login ''user'' ''user''),
               logs := [Log INFO ''Credentials saved to %s'' []],
               events := [Input ''Blink username (email): '' (Inr ''user''),
                          Input ''Blink password: '' (Inr ''user''),
                          Start (Inr False), Save (Inr ())]\<rparr>)
   \<and> \<not> from_successful_login (Login ''user'' ''user'')"
  by (simp add: auth_defs lib_defs prog_defs env_defs env_login_fails_def)




subsection \<open>A rejected second-factor code\<close>

lemma do_2fa_rejected:
  "stops_at (\<lambda>ev. ev = Send2FA (Inr False)) (SystemExit 1) (do_2fa env b)"
proof (rule stops_atI)
  fix w
  let ?Q = "\<lambda>ev. ev = Send2FA (Inr False)"
  let ?p = "Input ''Enter the 2FA pin sent to your registered device/email: ''"
  let ?i = "input env (tick w)"
  let ?s = "send_2fa_code env (Suc (tick w))"
  show "\<exists>evs. events (snd (do_2fa env b w)) = events w @ evs
          \<and> halted ?Q (SystemExit 1) evs (fst (do_2fa env b w))"
  proof (cases ?i)
    case (Inl e)
    then have "do_2fa env b w = (Inl e, w\<lparr>events := events w @ [?p (Inl e)]\<rparr>)"
      by (simp add: do_2fa_def prog_defs)
    then show ?thesis by (simp add: halted_def)
  next
    case (Inr code)
    show ?thesis
    proof (cases ?s)
      case (Inl e)
      with Inr have "do_2fa env b w
          = (Inl e, w\<lparr>events := events w @ [?p (Inr code), Send2FA (Inl e)]\<rparr>)"
        by (simp add: do_2fa_def prog_defs)
      then show ?thesis by (simp add: halted_def)
    next
      case ok: (Inr ok)
      show ?thesis
      proof (cases ok)
        case True
        with Inr ok have "events (snd (do_2fa env b w))
            = events w @ [?p (Inr code), Send2FA (Inr True)]"
          by (simp add: do_2fa_def logged_in_def prog_defs)
        then show ?thesis by (simp add: halted_def)
      next
        case False
        with Inr ok have "do_2fa env b w
          = (Inl (SystemExit 1),
             w\<lparr>events := events w @ [?p (Inr code), Send2FA (Inr False)],
               logs := logs w @ [Log ERROR ''2FA verification failed.'' []]\<rparr>)"
          by (simp add: do_2fa_def prog_defs)
        then show ?thesis by (simp add: halted_def)
      qed
    qed
  qed
qed

lemma environ_or_input_rejected:
  "stops_at (\<lambda>ev. ev = Send2FA (Inr False)) (SystemExit 1) (environ_or_input env name prompt)"
  unfolding environ_or_input_def
  by (auto intro!: stops_intros split: option.split)

lemma fresh_login_rejected:
  "stops_at (\<lambda>ev. ev = Send2FA (Inr False)) (SystemExit 1) (fresh_login env)"
  unfolding fresh_login_def lib_defs
  by (auto intro!: stops_intros do_2fa_rejected environ_or_input_rejected split: prod.split)

lemma saved_login_rejected:
  "stops_at (\<lambda>ev. ev = Send2FA (Inr False)) (SystemExit 1) (saved_login env c)"
  unfolding saved_login_def lib_defs
  by (auto intro!: stops_intros do_2fa_rejected split: prod.split)

lemma authenticate_rejected:
  "stops_at (\<lambda>ev. ev = Send2FA (Inr False)) (SystemExit 1) (authenticate env)"
  unfolding authenticate_def
  by (auto intro!: stops_intros fresh_login_rejected saved_login_rejected split: option.split)

text \<open>
  Claim C9. When the trace of authentication has a second-factor code that the service
  rejected, authentication raises \<^verbatim>\<open>SystemExit(1)\<close>; the rejected submission is the
  last call the process makes (no second submission, no capture); \<open>run_collector\<close>
  raises the same exception and the process exits with status 1.
\<close>

theorem rejected_2fa_code_exits:
  assumes auth: "authenticate env w = (r, w1)"
    and rej: "Send2FA (Inr False) \<in> set (new_events w w1)"
  shows "r = Inl (SystemExit 1)
       \<and> last (events w1) = Send2FA (Inr False)
       \<and> Send2FA (Inr False) \<notin> set (butlast (new_events w w1))
       \<and> (\<forall>ev \<in> set (new_events w w1). \<not> loop_event ev)
       \<and> run_collector fuel env interval camera_filter frames_dir once w
           = Some (Inl (SystemExit 1), w1)
       \<and> main fuel env interval camera_filter frames_dir once w = Some (1, w1)"
proof -
  from stops_atD [OF authenticate_rejected, of env w] auth obtain evs where
    evs: "events w1 = events w @ evs"
    and h: "halted (\<lambda>ev. ev = Send2FA (Inr False)) (SystemExit 1) evs r" by auto
  have ne: "new_events w w1 = evs" using evs by (rule new_events_append)
  with rej have "\<exists>ev \<in> set evs. ev = Send2FA (Inr False)" by simp
  with h have r: "r = Inl (SystemExit 1)" and l: "last evs = Send2FA (Inr False)"
    and b: "\<forall>ev \<in> set (butlast evs). ev \<noteq> Send2FA (Inr False)"
    unfolding halted_def by blast+
  from rej ne have "evs \<noteq> []" by auto
  with evs l have last: "last (events w1) = Send2FA (Inr False)" by simp
  from authenticate_returns [OF auth] evs have nl: "\<forall>ev \<in> set evs. \<not> loop_event ev" by auto
  have run: "run_collector fuel env interval camera_filter frames_dir once w
               = Some (Inl (SystemExit 1), w1)"
    using auth r by (simp add: run_collector_def seq_def)
  then have "main fuel env interval camera_filter frames_dir once w = Some (1, w1)"
    by (simp add: main_def)
  with r last b nl run ne show ?thesis by auto
qed

theorem rejected_2fa_code_exits_witness:
  "Send2FA (Inr False) \<in> set (new_events world0 (snd (authenticate env_2fa_rejected world0)))
   \<and> fst (authenticate env_2fa_rejected world0) = Inl (SystemExit 1)
   \<and> map_option fst (main 0 env_2fa_rejected 600 None ''frames'' False world0) = Some 1"
proof -
  let ?a = "authenticate env_2fa_rejected world0"
  have auth: "?a = (fst ?a, snd ?a)" by simp
  have rej: "Send2FA (Inr False) \<in> set (new_events world0 (snd ?a))"
    by (simp add: new_events_def auth_defs lib_defs prog_defs env_defs env_2fa_rejected_def)
  from rejected_2fa_code_exits [OF auth rej, of 0 600 None "''frames''" False] rej
  show ?thesis by simp
qed

subsection \<open>Stopping before the loop\<close>

lemma resolve_cameras_stop:
  assumes "\<not> available env (tick w) \<or> cameras env (tick w) = []
           \<or> (camera_filter = Some f \<and> f \<noteq> [] \<and> set f \<inter> fst ` set (cameras env (tick w)) = {})"
  shows "\<exists>ls. resolve_cameras env camera_filter w = (Inr None, w\<lparr>logs := logs w @ ls\<rparr>)
           \<and> ls \<noteq> [] \<and> log_level (last ls) = ERROR"
proof -
  consider (unavailable) "\<not> available env (tick w)"
    | (none) "available env (tick w)" "cameras env (tick w) = []"
    | (nomatch) "available env (tick w)" "cameras env (tick w) \<noteq> []" "camera_filter = Some f"
        "f \<noteq> []" "set f \<inter> fst ` set (cameras env (tick w)) = {}"
    using assms by blast
  then show ?thesis
  proof cases
    case unavailable
    then have "resolve_cameras env camera_filter w
        = (Inr None, w\<lparr>logs := logs w
             @ [Log ERROR ''Blink system not available after authentication.'' []]\<rparr>)"
      by (simp add: resolve_cameras_def prog_defs)
    then show ?thesis by (intro exI [of _ "[Log ERROR ''Blink system not available after authentication.'' []]"]) simp
  next
    case none
    then have "resolve_cameras env camera_filter w
        = (Inr None, w\<lparr>logs := logs w @ [Log ERROR ''No cameras found in your Blink account.'' []]\<rparr>)"
      by (simp add: resolve_cameras_def prog_defs)
    then show ?thesis by (intro exI [of _ "[Log ERROR ''No cameras found in your Blink account.'' []]"]) simp
  next
    case nomatch
    let ?cams = "cameras env (tick w)"
    from nomatch(5) have "\<forall>x \<in> set ?cams. fst x \<notin> set f" by force
    then have "filter_cameras f ?cams = []"
      by (auto simp: filter_cameras_def filter_empty_conv)
    with nomatch have "resolve_cameras env camera_filter w
        = (Inr None, w\<lparr>logs := logs w @ [Log INFO ''Cameras found: %s'' (map fst ?cams),
             Log ERROR ''None of the specified cameras were found. Available: %s'' (map fst ?cams)]\<rparr>)"
      by (simp add: resolve_cameras_def prog_defs)
    then show ?thesis
      by (intro exI [of _ "[Log INFO ''Cameras found: %s'' (map fst ?cams),
             Log ERROR ''None of the specified cameras were found. Available: %s'' (map fst ?cams)]"]) simp
  qed
qed

text \<open>
  Claim C8. When authentication has returned a session and the session is not
  available, or no camera is discovered, or a non-empty name filter matches none of the
  discovered cameras, \<open>run_collector\<close> returns (for any fuel, so before the loop) with
  an error as its last log record, and the process exits with status 0. Nothing is
  called after authentication: no refresh, snapshot, wait or download is in the trace,
  and the frame files and the directories are those of the start.
\<close>

theorem early_stop:
  assumes auth: "authenticate env w = (Inr b, w1)"
    and stop: "\<not> available env (tick w1) \<or> cameras env (tick w1) = []
           \<or> (camera_filter = Some f \<and> f \<noteq> [] \<and> set f \<inter> fst ` set (cameras env (tick w1)) = {})"
  shows "\<exists>w'. run_collector fuel env interval camera_filter frames_dir once w = Some (Inr (), w')
           \<and> main fuel env interval camera_filter frames_dir once w = Some (0, w')
           \<and> log_level (last (logs w')) = ERROR
           \<and> events w' = events w1
           \<and> (\<forall>ev \<in> set (new_events w w'). \<not> loop_event ev)
           \<and> files w' = files w \<and> dirs w' = dirs w"
proof -
  from resolve_cameras_stop [OF stop] obtain ls where
    rc: "resolve_cameras env camera_filter w1 = (Inr None, w1\<lparr>logs := logs w1 @ ls\<rparr>)"
    and ls: "ls \<noteq> []" "log_level (last ls) = ERROR" by blast
  let ?w' = "w1\<lparr>logs := logs w1 @ ls\<rparr>"
  from authenticate_returns [OF auth] obtain evs where
    evs: "events w1 = events w @ evs" "\<forall>ev \<in> set evs. \<not> loop_event ev"
    and fd: "files w1 = files w" "dirs w1 = dirs w" by blast
  have run: "run_collector fuel env interval camera_filter frames_dir once w = Some (Inr (), ?w')"
    using auth rc by (simp add: run_collector_def seq_def)
  then have "main fuel env interval camera_filter frames_dir once w = Some (0, ?w')"
    by (simp add: main_def)
  moreover have "new_events w ?w' = evs" using evs(1) by (simp add: new_events_def)
  ultimately show ?thesis using run ls evs fd by (intro exI [of _ ?w']) simp
qed

theorem early_stop_witness:
  "run_collector 0 env_unavailable 600 None ''frames'' False world0
     = Some (Inr (),
         world0\<lparr>cred_file := Some (Session 3),
               logs := [Log INFO ''Credentials saved to %s'' [],
                        Log ERROR ''Blink system not available after authentication.'' []],
               events := [Input ''Blink username (email): '' (Inr ''user''),
                          Input ''Blink password: '' (Inr ''user''),
                          Start (Inr True), Save (Inr ())]\<rparr>)
   \<and> main 0 env_unavailable 600 None ''frames'' False world0
     = Some (0,
         world0\<lparr>cred_file := Some (Session 3),
               logs := [Log INFO ''Credentials saved to %s'' [],
                        Log ERROR ''Blink system not available after authentication.'' []],
               events := [Input ''Blink username (email): '' (Inr ''user''),
                          Input ''Blink password: '' (Inr ''user''),
                          Start (Inr True), Save (Inr ())]\<rparr>)"
proof -
  let ?w1 = "world0\<lparr>cred_file := Some (Session 3),
               logs := [Log INFO ''Credentials saved to %s'' []],
               events := [Input ''Blink username (email): '' (Inr ''user''),
                          Input ''Blink password: '' (Inr ''user''),
                          Start (Inr True), Save (Inr ())]\<rparr>"
  have auth: "authenticate env_unavailable world0
                = (Inr \<lparr>login_attributes = Session 3, no_prompt = False\<rparr>, ?w1)"
    by (simp add: auth_defs lib_defs prog_defs env_defs env_unavailable_def)
  have stop: "\<not> available env_unavailable (tick ?w1) \<or> cameras env_unavailable (tick ?w1) = []
       \<or> (None = Some [] \<and> [] \<noteq> [] \<and> set [] \<inter> fst ` set (cameras env_unavailable (tick ?w1)) = {})"
    by (simp add: env_defs env_unavailable_def)
  from early_stop [OF auth stop, of 0 600 "''frames''" False] obtain w' where
    w': "run_collector 0 env_unavailable 600 None ''frames'' False world0 = Some (Inr (), w')"
      "main 0 env_unavailable 600 None ''frames'' False world0 = Some (0, w')"
    by blast
  have "run_collector 0 env_unavailable 600 None ''frames'' False world0
     = Some (Inr (), ?w1\<lparr>logs := logs ?w1
               @ [Log ERROR ''Blink system not available after authentication.'' []]\<rparr>)"
    using auth by (simp add: run_collector_def resolve_cameras_def prog_defs env_defs env_unavailable_def)
  with w' show ?thesis by (simp add: env_defs env_unavailable_def)
qed

subsection \<open>Fuel\<close>

text \<open>A run that has returned with some fuel returns the same with more.\<close>

lemma cycles_more_fuel:
  "cycles fuel env interval frames_dir once cams w = Some (r, w') \<Longrightarrow>
     cycles (fuel + k) env interval frames_dir once cams w = Some (r, w')"
proof (induction fuel arbitrary: w)
  case 0
  then show ?case by simp
next
  case (Suc fuel)
  let ?body = "seq (call (refresh env) Refresh) (\<lambda>_. capture_cameras env frames_dir cams)"
  let ?wait = "seq (log INFO ''Next capture in %ds. Press Ctrl+C to stop.'' [])
                 (\<lambda>_. call (sleep env) (Sleep interval))"
  obtain rb wb where b: "?body w = (rb, wb)" by (cases "?body w")
  show ?case
  proof (cases rb)
    case (Inl e)
    with b Suc.prems have "r = Inl e" "w' = wb" by simp_all
    with b Inl show ?thesis by simp
  next
    case (Inr u)
    show ?thesis
    proof (cases once)
      case True
      with b Inr Suc.prems have "r = Inr ()" "w' = wb" by simp_all
      with b Inr True show ?thesis by simp
    next
      case False
      obtain rs ws where s: "?wait wb = (rs, ws)" by (cases "?wait wb")
      show ?thesis
      proof (cases rs)
        case (Inl e)
        with b \<open>rb = Inr u\<close> False s Suc.prems have "r = Inl e" "w' = ws" by simp_all
        with b \<open>rb = Inr u\<close> False s Inl show ?thesis by simp
      next
        case (Inr u')
        with b \<open>rb = Inr u\<close> False s Suc.prems
        have "cycles fuel env interval frames_dir once cams ws = Some (r, w')" by simp
        then have "cycles (fuel + k) env interval frames_dir once cams ws = Some (r, w')"
          by (rule Suc.IH)
        with b \<open>rb = Inr u\<close> False s Inr show ?thesis by simp
      qed
    qed
  qed
qed

lemma capture_loop_more_fuel:
  assumes "capture_loop fuel env interval frames_dir once cams w = Some x"
  shows "capture_loop (fuel + k) env interval frames_dir once cams w = Some x"
proof -
  from assms obtain r w' where y: "cycles fuel env interval frames_dir once cams w = Some (r, w')"
    by (auto simp: capture_loop_def split: option.splits)
  from cycles_more_fuel [OF y, of k] y assms show ?thesis
    by (simp add: capture_loop_def)
qed

lemma run_collector_more_fuel:
  assumes "run_collector fuel env interval camera_filter frames_dir once w = Some x"
  shows "run_collector (fuel + k) env interval camera_filter frames_dir once w = Some x"
  using assms capture_loop_more_fuel [of fuel env interval frames_dir once _ _ x k]
  unfolding run_collector_def
  by (auto split: prod.splits sum.splits option.splits)

subsection \<open>Interrupts\<close>

lemma interrupted_call:
  "interrupted (Refresh r) \<Longrightarrow> r = Inl KeyboardInterrupt"
  "interrupted (SnapPicture c r) \<Longrightarrow> r = Inl KeyboardInterrupt"
  "interrupted (Sleep n r) \<Longrightarrow> r = Inl KeyboardInterrupt"
  "interrupted (ImageToFile p r') \<Longrightarrow> r' = Inl KeyboardInterrupt"
  by (auto simp: interrupted_def split: sum.splits)

lemma capture_frame_interrupted:
  "stops_at interrupted KeyboardInterrupt (capture_frame env camera d name)"
  unfolding capture_frame_def camera_image_to_file_def Let_def
  by (auto intro!: stops_intros simp: interrupted_def split: option.split sum.splits)

lemma capture_cameras_interrupted:
  "stops_at interrupted KeyboardInterrupt (capture_cameras env frames_dir cams)"
proof (induction cams)
  case Nil
  show ?case by (simp add: stops_ret)
next
  case (Cons x cams)
  obtain name camera where x: "x = (name, camera)" by (cases x)
  show ?case unfolding x capture_cameras.simps
    by (intro stops_seq stops_try stops_ret stops_log capture_frame_interrupted Cons.IH) simp
qed

lemma cycle_body_interrupted:
  "stops_at interrupted KeyboardInterrupt
     (seq (call (refresh env) Refresh) (\<lambda>_. capture_cameras env frames_dir cams))"
  by (intro stops_seq stops_call capture_cameras_interrupted interrupted_call)

lemma wait_interrupted:
  "stops_at interrupted KeyboardInterrupt
     (seq (log INFO ''Next capture in %ds. Press Ctrl+C to stop.'' [])
        (\<lambda>_. call (sleep env) (Sleep interval)))"
  by (intro stops_seq stops_call stops_log interrupted_call)

lemma cycles_interrupted:
  "cycles fuel env interval frames_dir once cams w = Some (r, w') \<Longrightarrow>
     \<exists>evs. events w' = events w @ evs \<and> halted interrupted KeyboardInterrupt evs r"
proof (induction fuel arbitrary: w)
  case 0
  then show ?case by simp
next
  case (Suc fuel)
  let ?body = "seq (call (refresh env) Refresh) (\<lambda>_. capture_cameras env frames_dir cams)"
  let ?wait = "seq (log INFO ''Next capture in %ds. Press Ctrl+C to stop.'' [])
                 (\<lambda>_. call (sleep env) (Sleep interval))"
  obtain rb wb where b: "?body w = (rb, wb)" by (cases "?body w")
  from stops_atD [OF cycle_body_interrupted, of env frames_dir cams w] b obtain evs1 where
    1: "events wb = events w @ evs1" "halted interrupted KeyboardInterrupt evs1 rb" by auto
  show ?case
  proof (cases rb)
    case (Inl e)
    with Suc.prems b have "r = Inl e" "w' = wb" by simp_all
    with 1 Inl show ?thesis by auto
  next
    case (Inr u)
    with 1 have no1: "\<forall>ev \<in> set evs1. \<not> interrupted ev" by (simp add: halted_Inr)
    show ?thesis
    proof (cases once)
      case True
      with Suc.prems b Inr have "r = Inr ()" "w' = wb" by simp_all
      with 1 Inr show ?thesis by auto
    next
      case False
      obtain rs ws where s: "?wait wb = (rs, ws)" by (cases "?wait wb")
      from stops_atD [OF wait_interrupted, of env interval wb] s obtain evs2 where
        2: "events ws = events wb @ evs2" "halted interrupted KeyboardInterrupt evs2 rs" by auto
      show ?thesis
      proof (cases rs)
        case (Inl e)
        with Suc.prems b Inr False s have "r = Inl e" "w' = ws" by simp_all
        moreover from no1 2(2) have "halted interrupted KeyboardInterrupt (evs1 @ evs2) rs"
          by (rule halted_append)
        moreover have "events ws = events w @ (evs1 @ evs2)" using 1 2 by simp
        ultimately show ?thesis using Inl by blast
      next
        case (Inr u')
        with 2 have no2: "\<forall>ev \<in> set evs2. \<not> interrupted ev" by (simp add: halted_Inr)
        from Suc.prems b \<open>rb = Inr u\<close> False s Inr
        have "cycles fuel env interval frames_dir once cams ws = Some (r, w')" by simp
        from Suc.IH [OF this] obtain evs3 where
          3: "events w' = events ws @ evs3" "halted interrupted KeyboardInterrupt evs3 r" by auto
        from no1 no2 have "\<forall>ev \<in> set (evs1 @ evs2). \<not> interrupted ev" by auto
        then have "halted interrupted KeyboardInterrupt ((evs1 @ evs2) @ evs3) r"
          using 3(2) by (rule halted_append)
        moreover have "events w' = events w @ ((evs1 @ evs2) @ evs3)" using 1 2 3 by simp
        ultimately show ?thesis by blast
      qed
    qed
  qed
qed

lemma resolve_cameras_emits: "emits (\<lambda>ev. \<not> loop_event ev) (resolve_cameras env camera_filter)"
  unfolding resolve_cameras_def
  by (auto intro!: emits_intros simp: Let_def split: option.split prod.split)

lemma make_dirs_emits: "emits (\<lambda>ev. \<not> loop_event ev) (make_dirs env frames_dir cams)"
  by (induction cams) (auto intro!: emits_intros simp: path_mkdir_def)

lemma before_loop_emits:
  "emits (\<lambda>ev. \<not> loop_event ev) (seq (authenticate env) (\<lambda>b. resolve_cameras env camera_filter))"
  by (intro emits_seq authenticate_emits resolve_cameras_emits)

lemma make_dirs_log_emits:
  "emits (\<lambda>ev. \<not> loop_event ev) (seq (make_dirs env frames_dir cams) (\<lambda>_. log l fmt args))"
  by (intro emits_seq make_dirs_emits emits_log)




subsection \<open>The single-shot scenario\<close>

lemma environ_or_input_ok:
  assumes inp: "\<And>t. \<exists>s. input env t = Inr s"
  shows "\<exists>v w1 ins. environ_or_input env name prompt w = (Inr v, w1)
           \<and> events w1 = events w @ ins \<and> (\<forall>ev \<in> set ins. is_Input ev)
           \<and> files w1 = files w \<and> cred_file w1 = cred_file w"
proof -
  from inp obtain s where s: "input env (tick w) = Inr s" by blast
  have c: "call (input env) (Input prompt) w
             = (Inr s, w\<lparr>events := events w @ [Input prompt (Inr s)]\<rparr>)"
    using s by (simp add: call_def)
  show ?thesis
  proof (cases "environ env name")
    case None
    with c have "environ_or_input env name prompt w
                   = (Inr s, w\<lparr>events := events w @ [Input prompt (Inr s)]\<rparr>)"
      by (simp add: environ_or_input_def)
    then show ?thesis by (intro exI [of _ s] exI [of _ "w\<lparr>events := events w @ [Input prompt (Inr s)]\<rparr>"]
              exI [of _ "[Input prompt (Inr s)]"]) simp
  next
    case (Some v)
    show ?thesis
    proof (cases "v = []")
      case True
      with Some c have "environ_or_input env name prompt w
                   = (Inr s, w\<lparr>events := events w @ [Input prompt (Inr s)]\<rparr>)"
        by (simp add: environ_or_input_def)
      then show ?thesis by (intro exI [of _ s] exI [of _ "w\<lparr>events := events w @ [Input prompt (Inr s)]\<rparr>"]
              exI [of _ "[Input prompt (Inr s)]"]) simp
    next
      case False
      with Some have "environ_or_input env name prompt w = (Inr v, w)"
        by (simp add: environ_or_input_def ret_def)
      then show ?thesis by (intro exI [of _ v] exI [of _ w] exI [of _ "[]"]) simp
    qed
  qed
qed

lemma fresh_login_ok:
  assumes inp: "\<And>t. \<exists>s. input env t = Inr s"
    and st: "\<And>t. start env t = Inr True"
    and sv: "\<And>t. save env t = Inr ()"
  shows "\<exists>b w1 ins. fresh_login env w = (Inr b, w1)
           \<and> events w1 = events w @ ins @ [Start (Inr True), Save (Inr ())]
           \<and> (\<forall>ev \<in> set ins. is_Input ev) \<and> files w1 = files w"
proof -
  from environ_or_input_ok [OF inp]
  obtain u wu iu where u: "environ_or_input env ''BLINK_USERNAME'' ''Blink username (email): '' w
      = (Inr u, wu)" "events wu = events w @ iu" "\<forall>ev \<in> set iu. is_Input ev" "files wu = files w"
    by blast
  from environ_or_input_ok [OF inp]
  obtain p wp ip where p: "environ_or_input env ''BLINK_PASSWORD'' ''Blink password: '' wu
      = (Inr p, wp)" "events wp = events wu @ ip" "\<forall>ev \<in> set ip. is_Input ev" "files wp = files wu"
    by blast
  let ?w1 = "snd (fresh_login env w)"
  have r: "fresh_login env w
      = (Inr \<lparr>login_attributes = Session (issued env (Suc (tick wp))), no_prompt = False\<rparr>, ?w1)"
    and e: "events ?w1 = events wp @ [Start (Inr True), Save (Inr ())]"
    and f: "files ?w1 = files wp"
    using u(1) p(1) st sv by (simp_all add: fresh_login_def lib_defs prog_defs)
  from e u p have "events ?w1 = events w @ (iu @ ip) @ [Start (Inr True), Save (Inr ())]" by simp
  moreover from u p have "\<forall>ev \<in> set (iu @ ip). is_Input ev" by auto
  moreover from f u p have "files ?w1 = files w" by simp
  ultimately show ?thesis using r by blast
qed

lemma capture_frame_ok:
  assumes sn: "\<And>t. snap_picture env t = Inr ()"
    and sl: "\<And>t. sleep env t = Inr ()"
    and rf: "\<And>t. refresh env t = Inr ()"
    and img: "\<And>t. \<exists>n>0. image_to_file env t = Inr (Some n)"
  shows "\<exists>n w1. 0 < n \<and> capture_frame env camera d name w = (Inr True, w1)
           \<and> events w1 = events w
               @ [SnapPicture camera (Inr ()), Sleep SNAP_SETTLE_DELAY (Inr ()), Refresh (Inr ()),
                  ImageToFile (path_join d (now env (tick w) @ ''.jpg'')) (Inr (Some n))]
           \<and> files w1 = (files w)(path_join d (now env (tick w) @ ''.jpg'') \<mapsto> n)"
proof -
  from img obtain n where n: "0 < n" "image_to_file env (Suc (Suc (Suc (tick w)))) = Inr (Some n)"
    by blast
  let ?w1 = "snd (capture_frame env camera d name w)"
  have "capture_frame env camera d name w = (Inr True, ?w1)"
    and "events ?w1 = events w
               @ [SnapPicture camera (Inr ()), Sleep SNAP_SETTLE_DELAY (Inr ()), Refresh (Inr ()),
                  ImageToFile (path_join d (now env (tick w) @ ''.jpg'')) (Inr (Some n))]"
    and "files ?w1 = (files w)(path_join d (now env (tick w) @ ''.jpg'') \<mapsto> n)"
    using n sn sl rf by (simp_all add: capture_frame_def camera_image_to_file_def prog_defs)
  with n(1) show ?thesis by blast
qed

lemma single_cycle_ok:
  assumes sn: "\<And>t. snap_picture env t = Inr ()"
    and sl: "\<And>t. sleep env t = Inr ()"
    and rf: "\<And>t. refresh env t = Inr ()"
    and img: "\<And>t. \<exists>n>0. image_to_file env t = Inr (Some n)"
  shows "\<exists>n1 n2 t1 t2 w'. 0 < n1 \<and> 0 < n2
           \<and> capture_loop (Suc fuel) env interval fd True [(a, c1), (b, c2)] w = Some (Inr (), w')
           \<and> events w' = events w
               @ [Refresh (Inr ()),
                  SnapPicture c1 (Inr ()), Sleep SNAP_SETTLE_DELAY (Inr ()), Refresh (Inr ()),
                  ImageToFile (path_join (path_join fd a) (now env t1 @ ''.jpg'')) (Inr (Some n1)),
                  SnapPicture c2 (Inr ()), Sleep SNAP_SETTLE_DELAY (Inr ()), Refresh (Inr ()),
                  ImageToFile (path_join (path_join fd b) (now env t2 @ ''.jpg'')) (Inr (Some n2))]
           \<and> files w' = (files w)(path_join (path_join fd a) (now env t1 @ ''.jpg'') \<mapsto> n1,
                                   path_join (path_join fd b) (now env t2 @ ''.jpg'') \<mapsto> n2)"
proof -
  let ?w5 = "w\<lparr>events := events w @ [Refresh (Inr ())]\<rparr>"
  have r: "call (refresh env) Refresh w = (Inr (), ?w5)" using rf by (simp add: call_def)
  from capture_frame_ok [OF sn sl rf img, of c1 "path_join fd a" a ?w5]
  obtain n1 w6 where 1: "0 < n1"
    "capture_frame env c1 (path_join fd a) a ?w5 = (Inr True, w6)"
    "events w6 = events ?w5
       @ [SnapPicture c1 (Inr ()), Sleep SNAP_SETTLE_DELAY (Inr ()), Refresh (Inr ()),
          ImageToFile (path_join (path_join fd a) (now env (tick ?w5) @ ''.jpg'')) (Inr (Some n1))]"
    "files w6 = (files ?w5)(path_join (path_join fd a) (now env (tick ?w5) @ ''.jpg'') \<mapsto> n1)"
    by blast
  from capture_frame_ok [OF sn sl rf img, of c2 "path_join fd b" b w6]
  obtain n2 w7 where 2: "0 < n2"
    "capture_frame env c2 (path_join fd b) b w6 = (Inr True, w7)"
    "events w7 = events w6
       @ [SnapPicture c2 (Inr ()), Sleep SNAP_SETTLE_DELAY (Inr ()), Refresh (Inr ()),
          ImageToFile (path_join (path_join fd b) (now env (tick w6) @ ''.jpg'')) (Inr (Some n2))]"
    "files w7 = (files w6)(path_join (path_join fd b) (now env (tick w6) @ ''.jpg'') \<mapsto> n2)"
    by blast
  have "capture_cameras env fd [(a, c1), (b, c2)] ?w5 = (Inr (), w7)"
    using 1(2) 2(2) by (simp add: seq_def try_except_def ret_def)
  with r have "cycles (Suc fuel) env interval fd True [(a, c1), (b, c2)] w = Some (Inr (), w7)"
    by (simp add: seq_def)
  then have "capture_loop (Suc fuel) env interval fd True [(a, c1), (b, c2)] w = Some (Inr (), w7)"
    by (simp add: capture_loop_def)
  moreover have "events w7 = events w
               @ [Refresh (Inr ()),
                  SnapPicture c1 (Inr ()), Sleep SNAP_SETTLE_DELAY (Inr ()), Refresh (Inr ()),
                  ImageToFile (path_join (path_join fd a) (now env (tick ?w5) @ ''.jpg''))
                    (Inr (Some n1)),
                  SnapPicture c2 (Inr ()), Sleep SNAP_SETTLE_DELAY (Inr ()), Refresh (Inr ()),
                  ImageToFile (path_join (path_join fd b) (now env (tick w6) @ ''.jpg''))
                    (Inr (Some n2))]"
    using 1(3) 2(3) by simp
  moreover have "files w7
      = (files w)(path_join (path_join fd a) (now env (tick ?w5) @ ''.jpg'') \<mapsto> n1,
                  path_join (path_join fd b) (now env (tick w6) @ ''.jpg'') \<mapsto> n2)"
    using 1(4) 2(4) by simp
  ultimately show ?thesis using 1(1) 2(1) by blast
qed

lemma inputs_not_counted:
  assumes "\<forall>ev \<in> set ins. is_Input ev"
  shows "filter is_Start ins = []" "filter is_Refresh ins = []" "filter (is_Sleep n) ins = []"
proof -
  have "\<not> is_Start ev \<and> \<not> is_Refresh ev \<and> \<not> is_Sleep n ev" if "is_Input ev" for ev
    using that by (cases ev) simp_all
  with assms show "filter is_Start ins = []" "filter is_Refresh ins = []"
    "filter (is_Sleep n) ins = []"
    by (simp_all add: filter_empty_conv)
qed

text \<open>
  Claim C5, as the code has it. With no credentials file, no frame files, the cameras
  \<open>front\<close> and \<open>back\<close>, single-shot mode, interval 5 and every outside call
  succeeding (the login at once, each download writing a non-empty file), the run
  returns and the process exits with status 0 after one session start, three forced
  state refreshes (one at the start of the cycle and one inside each capture), and no
  wait of the interval; the frame files are then exactly
  \<open>frames/front/<ts>.jpg\<close> and \<open>frames/back/<ts>.jpg\<close>, both non-empty.
\<close>

theorem single_shot_two_cameras:
  assumes no_file: "cred_file w = None"
    and no_frames: "files w = Map.empty"
    and inp: "\<And>t. \<exists>s. input env t = Inr s"
    and st: "\<And>t. start env t = Inr True"
    and sv: "\<And>t. save env t = Inr ()"
    and av: "\<And>t. available env t"
    and cams: "\<And>t. cameras env t = [(''front'', c1), (''back'', c2)]"
    and mk: "\<And>t. mkdir env t = Inr ()"
    and sn: "\<And>t. snap_picture env t = Inr ()"
    and sl: "\<And>t. sleep env t = Inr ()"
    and rf: "\<And>t. refresh env t = Inr ()"
    and img: "\<And>t. \<exists>n>0. image_to_file env t = Inr (Some n)"
  shows "\<exists>w' t1 t2 n1 n2.
           run_collector (Suc fuel) env 5 None ''frames'' True w = Some (Inr (), w')
         \<and> main (Suc fuel) env 5 None ''frames'' True w = Some (0, w')
         \<and> count is_Start w' = count is_Start w + 1
         \<and> count is_Refresh w' = count is_Refresh w + 3
         \<and> count (is_Sleep 5) w' = count (is_Sleep 5) w
         \<and> files w' = [''frames/front/'' @ now env t1 @ ''.jpg'' \<mapsto> n1,
                       ''frames/back/'' @ now env t2 @ ''.jpg'' \<mapsto> n2]
         \<and> 0 < n1 \<and> 0 < n2"
proof -
  from fresh_login_ok [OF inp st sv, of w] obtain b w1 ins where
    auth: "fresh_login env w = (Inr b, w1)"
    and e1: "events w1 = events w @ ins @ [Start (Inr True), Save (Inr ())]"
    and ins: "\<forall>ev \<in> set ins. is_Input ev"
    and f1: "files w1 = files w" by blast
  let ?cams = "[(''front'', c1), (''back'', c2)]"
  let ?w2 = "w1\<lparr>logs := logs w1 @ [Log INFO ''Cameras found: %s'' [''front'', ''back'']]\<rparr>"
  let ?start = "log INFO ''Starting capture: %d camera(s), interval=%ds%s''
                  [if True then '' [single shot]'' else []]"
  have pre: "seq (authenticate env) (\<lambda>b. resolve_cameras env None) w = (Inr (Some ?cams), ?w2)"
    using no_file auth av cams by (simp add: authenticate_def resolve_cameras_def prog_defs)
  have "\<exists>w4. seq (make_dirs env ''frames'' ?cams) (\<lambda>_. ?start) ?w2 = (Inr (), w4)
          \<and> events w4
               = events w1 @ [Mkdir ''frames/front'' (Inr ()), Mkdir ''frames/back'' (Inr ())]
          \<and> files w4 = files w1"
    using mk by (simp add: path_mkdir_def prog_defs path_join_def)
  then obtain w4 where
    dirs: "seq (make_dirs env ''frames'' ?cams) (\<lambda>_. ?start) ?w2 = (Inr (), w4)"
    and e4: "events w4
               = events w1 @ [Mkdir ''frames/front'' (Inr ()), Mkdir ''frames/back'' (Inr ())]"
    and f4: "files w4 = files w1"
    by blast
  from single_cycle_ok [OF sn sl rf img, of fuel 5 "''frames''" "''front''" c1 "''back''" c2 w4]
  obtain n1 n2 t1 t2 w' where n: "0 < n1" "0 < n2"
    and loop: "capture_loop (Suc fuel) env 5 ''frames'' True ?cams w4 = Some (Inr (), w')"
    and e': "events w' = events w4
               @ [Refresh (Inr ()),
                  SnapPicture c1 (Inr ()), Sleep SNAP_SETTLE_DELAY (Inr ()), Refresh (Inr ()),
                  ImageToFile (path_join (path_join ''frames'' ''front'') (now env t1 @ ''.jpg''))
                    (Inr (Some n1)),
                  SnapPicture c2 (Inr ()), Sleep SNAP_SETTLE_DELAY (Inr ()), Refresh (Inr ()),
                  ImageToFile (path_join (path_join ''frames'' ''back'') (now env t2 @ ''.jpg''))
                    (Inr (Some n2))]"
    and f': "files w'
       = (files w4)(path_join (path_join ''frames'' ''front'') (now env t1 @ ''.jpg'') \<mapsto> n1,
                     path_join (path_join ''frames'' ''back'') (now env t2 @ ''.jpg'') \<mapsto> n2)"
    by blast
  have run: "run_collector (Suc fuel) env 5 None ''frames'' True w = Some (Inr (), w')"
    unfolding run_collector_def using pre dirs loop by simp
  then have m: "main (Suc fuel) env 5 None ''frames'' True w = Some (0, w')"
    by (simp add: main_def)
  have ev: "events w' = events w @ ins
      @ [Start (Inr True), Save (Inr ()),
         Mkdir ''frames/front'' (Inr ()), Mkdir ''frames/back'' (Inr ()), Refresh (Inr ()),
         SnapPicture c1 (Inr ()), Sleep SNAP_SETTLE_DELAY (Inr ()), Refresh (Inr ()),
         ImageToFile (path_join (path_join ''frames'' ''front'') (now env t1 @ ''.jpg''))
           (Inr (Some n1)),
         SnapPicture c2 (Inr ()), Sleep SNAP_SETTLE_DELAY (Inr ()), Refresh (Inr ()),
         ImageToFile (path_join (path_join ''frames'' ''back'') (now env t2 @ ''.jpg''))
           (Inr (Some n2))]"
    using e' e4 e1 by simp
  have c1: "count is_Start w' = count is_Start w + 1"
    and c2: "count is_Refresh w' = count is_Refresh w + 3"
    and c3: "count (is_Sleep 5) w' = count (is_Sleep 5) w"
    unfolding count_def ev
    by (simp_all add: inputs_not_counted [OF ins] SNAP_SETTLE_DELAY_def)
  have fs: "files w' = [''frames/front/'' @ now env t1 @ ''.jpg'' \<mapsto> n1,
                       ''frames/back/'' @ now env t2 @ ''.jpg'' \<mapsto> n2]"
    using f' f4 f1 no_frames by (simp add: path_join_def)
  from run m c1 c2 c3 fs n show ?thesis by blast
qed

theorem single_shot_two_cameras_witness:
  "map_option fst (main (Suc 0) env_ok 5 None ''frames'' True world0) = Some 0
   \<and> map_option (count is_Start \<circ> snd) (main (Suc 0) env_ok 5 None ''frames'' True world0) = Some 1
   \<and> map_option (count (is_Sleep 5) \<circ> snd) (main (Suc 0) env_ok 5 None ''frames'' True world0)
       = Some 0"
proof -
  have a: "cred_file world0 = None" "files world0 = Map.empty"
    by (simp_all add: world0_def)
  have b: "\<And>t. \<exists>s. input env_ok t = Inr s" "\<And>t. start env_ok t = Inr True"
    "\<And>t. save env_ok t = Inr ()" "\<And>t. available env_ok t"
    "\<And>t. cameras env_ok t = [(''front'', 0), (''back'', 1)]" "\<And>t. mkdir env_ok t = Inr ()"
    "\<And>t. snap_picture env_ok t = Inr ()" "\<And>t. sleep env_ok t = Inr ()"
    "\<And>t. refresh env_ok t = Inr ()" "\<And>t. \<exists>n>0. image_to_file env_ok t = Inr (Some n)"
    by (simp_all add: env_ok_def)
  have c: "count is_Start world0 = 0" "count (is_Sleep 5) world0 = 0"
    by (simp_all add: count_def world0_def)
  from single_shot_two_cameras [OF a b, of 0] obtain w' where
    "main (Suc 0) env_ok 5 None ''frames'' True world0 = Some (0, w')"
    "count is_Start w' = count is_Start world0 + 1"
    "count (is_Sleep 5) w' = count (is_Sleep 5) world0"
    by blast
  with c show ?thesis by simp
qed

text \<open>
  Claim C5, as stated, fails on the number of state refreshes: in the scenario the run
  makes three, not one.
\<close>

theorem single_shot_refreshes_three_times:
  "cred_file world0 = None
   \<and> cameras env_ok 0 = [(''front'', 0), (''back'', 1)]
   \<and> map_option fst (run_collector (Suc 0) env_ok 5 None ''frames'' True world0) = Some (Inr ())
   \<and> map_option (count is_Refresh \<circ> snd)
        (run_collector (Suc 0) env_ok 5 None ''frames'' True world0) = Some 3"
  by (simp add: count_def run_collector_def capture_loop_def resolve_cameras_def capture_frame_def
        auth_defs lib_defs prog_defs env_defs path_join_def)

end
